theory Spec2Isabelle
  imports Complex_Main
begin

section \<open>JavaScript numbers\<close>

text \<open>
  The source computes with JavaScript numbers. They are modelled as the real numbers
  extended with the two infinities and NaN. The operations of this section are exact:
  the special values and the rules that produce them are kept, rounding is left out; it
  comes in with the arithmetic of the engine, a parameter of the geometry projector
  below, for the properties that depend on it. Zero carries no sign in this model; a
  division by zero reads the divisor as \<open>+0\<close>, which is what \<open>a - a\<close> yields for a
  finite \<open>a\<close>.
\<close>

datatype jsnum = Num real | PInf | NInf | NaN

definition isFinite :: "jsnum \<Rightarrow> bool" where
  "isFinite v = (case v of Num _ \<Rightarrow> True | _ \<Rightarrow> False)"

definition inf_of_sign :: "real \<Rightarrow> jsnum" where
  "inf_of_sign s = (if 0 < s then PInf else if s < 0 then NInf else NaN)"

definition jsign :: "jsnum \<Rightarrow> real" where
  "jsign v = (case v of Num a \<Rightarrow> sgn a | PInf \<Rightarrow> 1 | NInf \<Rightarrow> -1 | NaN \<Rightarrow> 0)"

definition jneg :: "jsnum \<Rightarrow> jsnum" where
  "jneg v = (case v of Num a \<Rightarrow> Num (- a) | PInf \<Rightarrow> NInf | NInf \<Rightarrow> PInf | NaN \<Rightarrow> NaN)"

definition jadd :: "jsnum \<Rightarrow> jsnum \<Rightarrow> jsnum" where
  "jadd u v =
     (case u of
        NaN \<Rightarrow> NaN
      | Num a \<Rightarrow> (case v of Num b \<Rightarrow> Num (a + b) | other \<Rightarrow> other)
      | PInf \<Rightarrow> (case v of NaN \<Rightarrow> NaN | NInf \<Rightarrow> NaN | _ \<Rightarrow> PInf)
      | NInf \<Rightarrow> (case v of NaN \<Rightarrow> NaN | PInf \<Rightarrow> NaN | _ \<Rightarrow> NInf))"

definition jsub :: "jsnum \<Rightarrow> jsnum \<Rightarrow> jsnum" where
  "jsub u v = jadd u (jneg v)"

definition jmul :: "jsnum \<Rightarrow> jsnum \<Rightarrow> jsnum" where
  "jmul u v =
     (case (u, v) of
        (NaN, _) \<Rightarrow> NaN
      | (_, NaN) \<Rightarrow> NaN
      | (Num a, Num b) \<Rightarrow> Num (a * b)
      | _ \<Rightarrow> inf_of_sign (jsign u * jsign v))"

definition jdiv :: "jsnum \<Rightarrow> jsnum \<Rightarrow> jsnum" where
  "jdiv u v =
     (case (u, v) of
        (NaN, _) \<Rightarrow> NaN
      | (_, NaN) \<Rightarrow> NaN
      | (Num a, Num b) \<Rightarrow> (if b = 0 then inf_of_sign a else Num (a / b))
      | (Num a, _) \<Rightarrow> Num 0
      | (_, Num b) \<Rightarrow> inf_of_sign (jsign u * (if b < 0 then -1 else 1))
      | _ \<Rightarrow> NaN)"

definition jabs :: "jsnum \<Rightarrow> jsnum" where
  "jabs v = (case v of Num a \<Rightarrow> Num \<bar>a\<bar> | NaN \<Rightarrow> NaN | _ \<Rightarrow> PInf)"

definition jlt :: "jsnum \<Rightarrow> jsnum \<Rightarrow> bool" where
  "jlt u v =
     (case (u, v) of
        (NaN, _) \<Rightarrow> False
      | (_, NaN) \<Rightarrow> False
      | (Num a, Num b) \<Rightarrow> a < b
      | (NInf, NInf) \<Rightarrow> False
      | (NInf, _) \<Rightarrow> True
      | (Num a, PInf) \<Rightarrow> True
      | _ \<Rightarrow> False)"

definition jgt :: "jsnum \<Rightarrow> jsnum \<Rightarrow> bool" where
  "jgt u v = jlt v u"

definition jle :: "jsnum \<Rightarrow> jsnum \<Rightarrow> bool" where
  "jle u v = (u \<noteq> NaN \<and> v \<noteq> NaN \<and> (u = v \<or> jlt u v))"

text \<open>
  \<open>Math.cos\<close>, \<open>Math.tan\<close> and \<open>Math.log\<close>. An infinite or NaN argument gives NaN,
  except that \<open>Math.log(Infinity)\<close> is \<open>Infinity\<close>; a negative argument of \<open>Math.log\<close>
  gives NaN and zero gives \<open>-Infinity\<close>. At a pole of the tangent the real function has no
  value and the model answers NaN; no claim below is stated at a pole.
\<close>

definition jcos :: "jsnum \<Rightarrow> jsnum" where
  "jcos v = (case v of Num a \<Rightarrow> Num (cos a) | _ \<Rightarrow> NaN)"

definition jtan :: "jsnum \<Rightarrow> jsnum" where
  "jtan v = (case v of Num a \<Rightarrow> (if cos a = 0 then NaN else Num (tan a)) | _ \<Rightarrow> NaN)"

definition jlog :: "jsnum \<Rightarrow> jsnum" where
  "jlog v =
     (case v of
        Num a \<Rightarrow> (if a < 0 then NaN else if a = 0 then NInf else Num (ln a))
      | PInf \<Rightarrow> PInf
      | _ \<Rightarrow> NaN)"

section \<open>Data model\<close>

record geopoint =
  lat :: jsnum
  lng :: jsnum

record ppoint =
  ptx :: jsnum
  pty :: jsnum

record bounds =
  north :: jsnum
  south :: jsnum
  east :: jsnum
  west :: jsnum

record rect =
  rtop :: jsnum
  rleft :: jsnum
  width :: jsnum
  height :: jsnum

record viewport =
  bounds :: bounds
  containerRect :: rect

section \<open>Geometry projector\<close>

text \<open>\<open>mercY\<close> is the local function of \<open>projectAll\<close> in \<open>contentScript.js\<close>.\<close>

definition mercY :: "jsnum \<Rightarrow> jsnum" where
  "mercY la =
     jlog (jtan (jadd (jdiv (Num pi) (Num 4))
                      (jdiv (jdiv (jmul la (Num pi)) (Num 180)) (Num 2))))"

definition projectAll :: "geopoint list \<Rightarrow> viewport \<Rightarrow> ppoint list" where
  "projectAll points vp =
     (let b = bounds vp; r = containerRect vp;
          W = width r; H = height r;
          yN = mercY (north b); yS = mercY (south b)
      in map (\<lambda>p. \<lparr> ptx = jmul (jdiv (jsub (lng p) (west b)) (jsub (east b) (west b))) W,
                     pty = jmul (jdiv (jsub yN (mercY (lat p))) (jsub yN yS)) H \<rparr>)
             points)"

text \<open>The real function that \<open>mercY\<close> computes on a latitude inside the open range.\<close>

definition merc :: "real \<Rightarrow> real" where
  "merc l = ln (tan (pi / 4 + l * pi / 360))"

subsection \<open>The arithmetic of the engine\<close>

text \<open>
  \<open>mercY\<close> and \<open>projectAll\<close> above compute with exact reals. The source computes with the
  doubles of the JavaScript engine, whose arithmetic is not part of the repository; it is
  a parameter here. \<open>fl\<close> rounds the exact result of an addition, subtraction,
  multiplication or division of two finite numbers to a number of the engine, infinite on
  overflow; \<open>etan\<close> and \<open>elog\<close> are \<open>Math.tan\<close> and \<open>Math.log\<close> on a finite argument, which
  the language leaves to the implementation; \<open>ePI\<close> is \<open>Math.PI\<close>. The rules for the
  infinities and NaN are those of the number model.
\<close>

record engine =
  fl :: "real \<Rightarrow> jsnum"
  etan :: "real \<Rightarrow> jsnum"
  elog :: "real \<Rightarrow> jsnum"
  ePI :: real

definition fadd :: "engine \<Rightarrow> jsnum \<Rightarrow> jsnum \<Rightarrow> jsnum" where
  "fadd E u v = (case (u, v) of (Num a, Num b) \<Rightarrow> fl E (a + b) | _ \<Rightarrow> jadd u v)"

definition fsub :: "engine \<Rightarrow> jsnum \<Rightarrow> jsnum \<Rightarrow> jsnum" where
  "fsub E u v = (case (u, v) of (Num a, Num b) \<Rightarrow> fl E (a - b) | _ \<Rightarrow> jsub u v)"

definition fmul :: "engine \<Rightarrow> jsnum \<Rightarrow> jsnum \<Rightarrow> jsnum" where
  "fmul E u v = (case (u, v) of (Num a, Num b) \<Rightarrow> fl E (a * b) | _ \<Rightarrow> jmul u v)"

definition fdiv :: "engine \<Rightarrow> jsnum \<Rightarrow> jsnum \<Rightarrow> jsnum" where
  "fdiv E u v =
     (case (u, v) of
        (Num a, Num b) \<Rightarrow> (if b = 0 then inf_of_sign a else fl E (a / b))
      | _ \<Rightarrow> jdiv u v)"

definition ftan :: "engine \<Rightarrow> jsnum \<Rightarrow> jsnum" where
  "ftan E v = (case v of Num a \<Rightarrow> etan E a | _ \<Rightarrow> NaN)"

definition flog :: "engine \<Rightarrow> jsnum \<Rightarrow> jsnum" where
  "flog E v = (case v of Num a \<Rightarrow> elog E a | PInf \<Rightarrow> PInf | _ \<Rightarrow> NaN)"

text \<open>\<open>mercY\<close> and \<open>projectAll\<close> of the source, operation by operation, over an engine.\<close>

definition mercY_fl :: "engine \<Rightarrow> jsnum \<Rightarrow> jsnum" where
  "mercY_fl E la =
     flog E (ftan E (fadd E (fdiv E (Num (ePI E)) (Num 4))
                            (fdiv E (fdiv E (fmul E la (Num (ePI E))) (Num 180)) (Num 2))))"

definition projectAll_fl :: "engine \<Rightarrow> geopoint list \<Rightarrow> viewport \<Rightarrow> ppoint list" where
  "projectAll_fl E points vp =
     (let b = bounds vp; r = containerRect vp;
          W = width r; H = height r;
          yN = mercY_fl E (north b); yS = mercY_fl E (south b)
      in map (\<lambda>p. \<lparr> ptx = fmul E (fdiv E (fsub E (lng p) (west b)) (fsub E (east b) (west b))) W,
                     pty = fmul E (fdiv E (fsub E yN (mercY_fl E (lat p))) (fsub E yN yS)) H \<rparr>)
             points)"

text \<open>The engine that does not round: over it the two functions are those above.\<close>

definition exact :: engine where
  "exact = \<lparr> fl = Num, etan = (\<lambda>a. jtan (Num a)), elog = (\<lambda>a. jlog (Num a)), ePI = pi \<rparr>"

text \<open>
  A number of the engine is rounded to itself. Rounding to nearest is monotone. The
  ordinate as computed is monotone when it does not decrease as the latitude grows inside
  the open range; that depends on the engine's \<open>Math.tan\<close> and \<open>Math.log\<close>.
\<close>

definition representable :: "engine \<Rightarrow> real \<Rightarrow> bool" where
  "representable E x \<longleftrightarrow> fl E x = Num x"



section \<open>Map adapter\<close>

text \<open>
  What the page provides when the adapter asks: the element that the selector chain of
  \<open>detect\<close> finds (an element is a number here), the bounding rectangle of an element,
  and the result of \<open>parseFloat\<close> on each of the four URL parameters (NaN when the
  parameter is absent or does not start with a number).
\<close>

type_synonym elem = nat

record env =
  mapElement :: "elem option"
  boundingRect :: "elem \<Rightarrow> rect"
  paramTop :: jsnum
  paramBottom :: jsnum
  paramLeft :: jsnum
  paramRight :: jsnum

text \<open>
  What a projection promise resolves to: the array of the response, whose entries may be
  null, or null.
\<close>

type_synonym reply = "ppoint option list option"

text \<open>
  The fields of \<open>MapAdapter\<close>; \<open>_pendingProjections\<close>, \<open>_projIdCounter\<close>,
  \<open>_viewportFromURL\<close> and \<open>_pxPerMeter\<close> lose their leading underscore. The pending table
  maps a request identifier to the promise whose \<open>resolve\<close> function is stored under it;
  promises are numbered in the order of their creation. The counter is a natural number:
  the double of the source counts exactly up to \<open>2^53\<close>.
\<close>

record adapter =
  container :: "elem option"
  found :: bool
  instanceAvailable :: bool
  viewport :: "viewport option"
  pendingProjections :: "nat \<rightharpoonup> nat"
  projIdCounter :: nat

definition detect :: "env \<Rightarrow> adapter \<Rightarrow> adapter" where
  "detect pg a =
     (let a1 = a\<lparr>container := mapElement pg\<rparr>
      in if container a1 \<noteq> None then a1\<lparr>found := True\<rparr> else a1)"

definition viewportFromURL :: "env \<Rightarrow> adapter \<Rightarrow> viewport option" where
  "viewportFromURL pg a =
     (let n = paramTop pg; s = paramBottom pg; w = paramLeft pg; e = paramRight pg
      in if list_ex (\<lambda>v. v = NaN) [n, s, w, e] then None
         else (case map_option (boundingRect pg) (container a) of
                 None \<Rightarrow> None
               | Some r \<Rightarrow>
                   if width r = Num 0 then None
                   else Some \<lparr> bounds = \<lparr>north = n, south = s, east = e, west = w\<rparr>,
                               containerRect = \<lparr>rtop = rtop r, rleft = rleft r,
                                                width = width r, height = height r\<rparr> \<rparr>))"

definition getViewport :: "env \<Rightarrow> adapter \<Rightarrow> viewport option" where
  "getViewport pg a =
     (case viewport a of Some v \<Rightarrow> Some v | None \<Rightarrow> viewportFromURL pg a)"

text \<open>The message kinds of the protocol; \<open>handleMessage\<close> has no case for the last two.\<close>

datatype message =
    MAP_FOUND
  | MAP_NOT_FOUND
  | MAP_VIEWPORT "viewport option"
  | PROJECT_RESPONSE nat reply
  | PROJECT_REQUEST nat "geopoint list"
  | GET_VIEWPORT

text \<open>
  The adapter in its surroundings: the page, a clock in milliseconds, the timers set by
  \<open>project\<close> and not yet run (due time, captured request identifier, captured promise),
  the calls made so far of promise \<open>resolve\<close> functions (promise, value) in order, the
  messages posted to the window, and the number of promises created.
\<close>

record world =
  adapter :: adapter
  page :: env
  now :: nat
  timers :: "(nat \<times> nat \<times> nat) list"
  resolveCalls :: "(nat \<times> reply) list"
  posted :: "message list"
  promises :: nat

definition project :: "geopoint list \<Rightarrow> world \<Rightarrow> nat \<times> world" where
  "project points w =
     (let a = adapter w; h = promises w; rid = Suc (projIdCounter a)
      in (h, w\<lparr> adapter := a\<lparr> projIdCounter := rid,
                                pendingProjections := (pendingProjections a)(rid \<mapsto> h) \<rparr>,
                 posted := posted w @ [PROJECT_REQUEST rid points],
                 timers := timers w @ [(now w + 1000, rid, h)],
                 promises := Suc h \<rparr>))"

text \<open>The function handed to \<open>setTimeout\<close> by the call that got identifier \<open>rid\<close> and promise \<open>h\<close>.\<close>

definition timeoutCallback :: "nat \<Rightarrow> nat \<Rightarrow> world \<Rightarrow> world" where
  "timeoutCallback rid h w =
     (let a = adapter w
      in if pendingProjections a rid \<noteq> None
         then w\<lparr> adapter := a\<lparr>pendingProjections := (pendingProjections a)(rid := None)\<rparr>,
                 resolveCalls := resolveCalls w @ [(h, None)] \<rparr>
         else w)"

fun handleMessage :: "message \<Rightarrow> world \<Rightarrow> world" where
  "handleMessage MAP_FOUND w =
     w\<lparr>adapter := detect (page w) ((adapter w)\<lparr>instanceAvailable := True, found := True\<rparr>)\<rparr>"
| "handleMessage MAP_NOT_FOUND w =
     w\<lparr>adapter := detect (page w) ((adapter w)\<lparr>instanceAvailable := False\<rparr>)\<rparr>"
| "handleMessage (MAP_VIEWPORT payload) w =
     w\<lparr>adapter := (adapter w)\<lparr>viewport := payload\<rparr>\<rparr>"
| "handleMessage (PROJECT_RESPONSE rid points) w =
     (let a = adapter w
      in case pendingProjections a rid of
           Some cb \<Rightarrow>
             w\<lparr> resolveCalls := resolveCalls w @ [(cb, points)],
                adapter := a\<lparr>pendingProjections := (pendingProjections a)(rid := None)\<rparr> \<rparr>
         | None \<Rightarrow> w)"
| "handleMessage (PROJECT_REQUEST rid points) w = w"
| "handleMessage GET_VIEWPORT w = w"

text \<open>
  What can happen to the adapter: a call of \<open>project\<close>, a message handed to
  \<open>handleMessage\<close>, time passing, a timer running its callback (only a timer that is set
  and due), and the page changing.
\<close>

datatype event =
    Call "geopoint list"
  | Receive message
  | Elapse nat
  | Fire "nat \<times> nat \<times> nat"
  | PageChange env

fun step :: "event \<Rightarrow> world \<Rightarrow> world" where
  "step (Call points) w = snd (project points w)"
| "step (Receive m) w = handleMessage m w"
| "step (Elapse d) w = w\<lparr>now := now w + d\<rparr>"
| "step (Fire t) w =
     (if t \<in> set (timers w) \<and> fst t \<le> now w
      then timeoutCallback (fst (snd t)) (snd (snd t)) (w\<lparr>timers := remove1 t (timers w)\<rparr>)
      else w)"
| "step (PageChange pg) w = w\<lparr>page := pg\<rparr>"

fun run :: "event list \<Rightarrow> world \<Rightarrow> world" where
  "run [] w = w"
| "run (ev # evs) w = run evs (step ev w)"

definition initial :: "env \<Rightarrow> world" where
  "initial pg =
     \<lparr> adapter = \<lparr> container = None, found = False, instanceAvailable = False,
                   viewport = None, pendingProjections = Map.empty, projIdCounter = 0 \<rparr>,
       page = pg, now = 0, timers = [], resolveCalls = [], posted = [], promises = 0 \<rparr>"

section \<open>Overlay renderer\<close>

record settings =
  enabled :: bool
  luasLines :: bool
  luasStops :: bool
  dartLines :: bool
  dartStations :: bool
  irishRailLines :: bool
  irishRailStations :: bool
  opacity :: int
  walkRadius5 :: bool
  walkRadius10 :: bool
  walkRadius20 :: bool

text \<open>The truth value of \<open>settings[k]\<close>; a key that the object does not have is undefined.\<close>

definition setting :: "settings \<Rightarrow> string \<Rightarrow> bool" where
  "setting st k =
     (if k = ''enabled'' then enabled st
      else if k = ''luasLines'' then luasLines st
      else if k = ''luasStops'' then luasStops st
      else if k = ''dartLines'' then dartLines st
      else if k = ''dartStations'' then dartStations st
      else if k = ''irishRailLines'' then irishRailLines st
      else if k = ''irishRailStations'' then irishRailStations st
      else if k = ''opacity'' then opacity st \<noteq> 0
      else if k = ''walkRadius5'' then walkRadius5 st
      else if k = ''walkRadius10'' then walkRadius10 st
      else if k = ''walkRadius20'' then walkRadius20 st
      else False)"

record walk_radius =
  key :: string
  meters :: jsnum
  label :: string
  color :: string

definition WALK_RADII :: "walk_radius list" where
  "WALK_RADII =
     [ \<lparr>key = ''walkRadius5'',  meters = Num 360,  label = ''5 min'',  color = ''#22c55e''\<rparr>,
       \<lparr>key = ''walkRadius10'', meters = Num 720,  label = ''10 min'', color = ''#eab308''\<rparr>,
       \<lparr>key = ''walkRadius20'', meters = Num 1440, label = ''20 min'', color = ''#ef4444''\<rparr> ]"

text \<open>
  The children that \<open>showWalkRadius\<close> appends to its group: a circle with its centre, its
  \<open>r\<close> attribute and its colour, and a text with its position and content.
\<close>

datatype ring_el =
    RingCircle jsnum jsnum jsnum string
  | RingText jsnum jsnum string

fun ringRadii :: "ring_el list \<Rightarrow> jsnum list" where
  "ringRadii [] = []"
| "ringRadii (RingCircle cx cy r c # els) = r # ringRadii els"
| "ringRadii (RingText x y t # els) = ringRadii els"

text \<open>
  The overlay element. Of the markup that \<open>render\<close> writes, the model keeps the projected
  positions it was built from; \<open>walkGroup\<close> is the group with identifier
  \<open>dt-walk-radii\<close>, when the overlay has one.
\<close>

record overlay =
  drawn :: "ppoint option list"
  walkGroup :: "ring_el list option"

text \<open>The variables \<open>svgOverlay\<close> (null or the element) and \<open>_pxPerMeter\<close> of the module.\<close>

record renderer =
  svgOverlay :: "overlay option"
  pxPerMeter :: jsnum

datatype jserror = TypeError

text \<open>
  The projection step of \<open>render\<close>. \<open>a0\<close> is the adapter when the step starts, \<open>a1\<close> and
  \<open>pg\<close> are the adapter and the page when the wait for the host is over (\<open>a1 = a0\<close> when
  there was no wait), \<open>answer\<close> is what the promise of \<open>MapAdapter.project\<close> resolved to.
\<close>

definition resolvePixels ::
  "env \<Rightarrow> adapter \<Rightarrow> adapter \<Rightarrow> reply \<Rightarrow> geopoint list \<Rightarrow> ppoint option list option" where
  "resolvePixels pg a0 a1 answer pts =
     (let projected =
            (if instanceAvailable a0
             then (case answer of
                     Some ps \<Rightarrow> if \<not> list_ex (\<lambda>p. p \<noteq> None) ps then None else Some ps
                   | None \<Rightarrow> None)
             else None)
      in case projected of
           Some ps \<Rightarrow> Some ps
         | None \<Rightarrow>
             (case getViewport pg a1 of
                None \<Rightarrow> None
              | Some vp \<Rightarrow> Some (map Some (projectAll pts vp))))"

text \<open>The two branches of the scale step of \<open>render\<close>.\<close>

definition scaleFromViewport :: "viewport \<Rightarrow> jsnum" where
  "scaleFromViewport vp2 =
     (let degLngSpan = jsub (east (bounds vp2)) (west (bounds vp2));
          midLat = jdiv (jadd (north (bounds vp2)) (south (bounds vp2))) (Num 2);
          metersPerDegLng = jmul (Num 111320) (jcos (jdiv (jmul midLat (Num pi)) (Num 180)))
      in jdiv (width (containerRect vp2)) (jmul degLngSpan metersPerDegLng))"

text \<open>
  The second branch keeps the old value \<open>old\<close> when it does not assign. Reading \<open>.x\<close> of
  a null entry of the host's answer throws.
\<close>

definition scaleFromPoints ::
  "geopoint list \<Rightarrow> ppoint option list \<Rightarrow> jsnum \<Rightarrow> jserror + jsnum" where
  "scaleFromPoints pts projected old =
     (case (pts, projected) of
        (p0 # p1 # _, q0 # q1 # _) \<Rightarrow>
          (case (q0, q1) of
             (Some c0, Some c1) \<Rightarrow>
               (let dLng = jabs (jsub (lng p1) (lng p0));
                    dPx = jabs (jsub (ptx c1) (ptx c0))
                in if jgt dLng (Num 0) \<and> jgt dPx (Num 0)
                   then (let midLat = jdiv (jadd (lat p0) (lat p1)) (Num 2);
                             metersPerDegLng =
                               jmul (Num 111320) (jcos (jdiv (jmul midLat (Num pi)) (Num 180)))
                         in Inr (jdiv dPx (jmul dLng metersPerDegLng)))
                   else Inr old)
           | _ \<Rightarrow> Inl TypeError)
      | _ \<Rightarrow> Inr old)"

definition scaleStep ::
  "viewport option \<Rightarrow> geopoint list \<Rightarrow> ppoint option list \<Rightarrow> jsnum \<Rightarrow> jserror + jsnum" where
  "scaleStep vp2 pts projected old =
     (case vp2 of
        Some v \<Rightarrow> Inr (scaleFromViewport v)
      | None \<Rightarrow> scaleFromPoints pts projected old)"

text \<open>
  \<open>render\<close> from its projection step on, for a non-empty \<open>pts\<close> and an overlay that
  exists. The result is the renderer afterwards, or the error thrown; \<open>render\<close> changes
  nothing before it throws.
\<close>

definition render ::
  "env \<Rightarrow> adapter \<Rightarrow> adapter \<Rightarrow> reply \<Rightarrow> geopoint list \<Rightarrow> renderer \<Rightarrow> jserror + renderer" where
  "render pg a0 a1 answer pts r =
     (case resolvePixels pg a0 a1 answer pts of
        None \<Rightarrow> Inr r
      | Some projected \<Rightarrow>
          (case scaleStep (getViewport pg a1) pts projected (pxPerMeter r) of
             Inl e \<Rightarrow> Inl e
           | Inr s \<Rightarrow>
               Inr (r\<lparr> pxPerMeter := s,
                       svgOverlay :=
                         map_option (\<lambda>ov. ov\<lparr>drawn := projected, walkGroup := None\<rparr>)
                                    (svgOverlay r) \<rparr>)))"

subsection \<open>Walking radius circles\<close>

definition hideWalkRadius :: "renderer \<Rightarrow> renderer" where
  "hideWalkRadius r =
     (case svgOverlay r of
        None \<Rightarrow> r
      | Some ov \<Rightarrow> r\<lparr>svgOverlay := Some (ov\<lparr>walkGroup := None\<rparr>)\<rparr>)"

text \<open>\<open>c\<close> is the pair of the \<open>cx\<close> and \<open>cy\<close> attributes of the marker's circle, as numbers.\<close>

definition showWalkRadius :: "settings \<Rightarrow> jsnum \<times> jsnum \<Rightarrow> renderer \<Rightarrow> renderer" where
  "showWalkRadius st c r0 =
     (let r = hideWalkRadius r0
      in if svgOverlay r = None \<or> jle (pxPerMeter r) (Num 0) then r
         else if \<not> list_ex (\<lambda>w. setting st (key w)) WALK_RADII then r
         else (let cx = fst c; cy = snd c;
                   group =
                     concat (map (\<lambda>w. if \<not> setting st (key w) then []
                                       else (let px = jmul (meters w) (pxPerMeter r)
                                             in [RingCircle cx cy px (color w),
                                                 RingText cx (jsub (jsub cy px) (Num 5)) (label w)]))
                                 WALK_RADII)
               in r\<lparr>svgOverlay := map_option (\<lambda>ov. ov\<lparr>walkGroup := Some group\<rparr>) (svgOverlay r)\<rparr>))"

text \<open>The radius attributes of the ring circles that the overlay holds.\<close>

definition ringsShown :: "renderer \<Rightarrow> jsnum list" where
  "ringsShown r =
     (case svgOverlay r of
        None \<Rightarrow> []
      | Some ov \<Rightarrow> (case walkGroup ov of None \<Rightarrow> [] | Some g \<Rightarrow> ringRadii g))"

section \<open>Render scheduler\<close>

text \<open>
  \<open>renderTimer\<close> is null or the handle of a timer; the handle is modelled by the time at
  which the timer was set and its delay. Times are the integers of \<open>Date.now()\<close>. \<open>render\<close>
  is an asynchronous function that the timer's callback calls and does not wait for; the
  scheduler keeps no trace of it, so the model adds two logs: the times at which \<open>render\<close>
  was called and the times at which a call of it finished, the latest first.
\<close>

record scheduler =
  overlayVisible :: bool
  renderTimer :: "(int \<times> int) option"
  lastRender :: int
  started :: "int list"
  finished :: "int list"

definition scheduleRender :: "int \<Rightarrow> scheduler \<Rightarrow> scheduler" where
  "scheduleRender t s =
     (if renderTimer s \<noteq> None then s
      else (let wait = max 0 (50 - (t - lastRender s))
            in s\<lparr>renderTimer := Some (t, wait)\<rparr>))"

text \<open>The callback of the timer, run at time \<open>t\<close>.\<close>

definition renderCallback :: "int \<Rightarrow> adapter \<Rightarrow> scheduler \<Rightarrow> scheduler" where
  "renderCallback t a s =
     (let s1 = s\<lparr>renderTimer := None, lastRender := t\<rparr>
      in if overlayVisible s1 \<and> found a then s1\<lparr>started := t # started s1\<rparr> else s1)"

text \<open>A call of \<open>render\<close> finishes at time \<open>t\<close>: its waits for the data and the host are over.\<close>

definition renderFinishes :: "int \<Rightarrow> scheduler \<Rightarrow> scheduler" where
  "renderFinishes t s = s\<lparr>finished := t # finished s\<rparr>"

section \<open>Well-formed worlds\<close>

text \<open>
  The values with which the \<open>resolve\<close> function of promise \<open>h\<close> has been called, and the
  promises whose \<open>resolve\<close> function has been called.
\<close>

definition resolutions :: "world \<Rightarrow> nat \<Rightarrow> reply list" where
  "resolutions w h = map snd (filter (\<lambda>c. fst c = h) (resolveCalls w))"

definition settled :: "world \<Rightarrow> nat set" where
  "settled w = fst ` set (resolveCalls w)"

text \<open>
  What every run keeps true: the timers carry identifiers no greater than the counter
  and promises that exist; no two timers share an identifier or a promise; the promise
  stored under an identifier has its timer waiting and has not been resolved; no promise
  is resolved twice; the promise of a waiting timer is in the table under the timer's
  identifier or has been resolved.
\<close>

definition consistent :: "world \<Rightarrow> bool" where
  "consistent w \<longleftrightarrow>
     (\<forall>t \<in> set (timers w). fst (snd t) \<le> projIdCounter (adapter w) \<and> snd (snd t) < promises w) \<and>
     distinct (map (\<lambda>t. fst (snd t)) (timers w)) \<and>
     distinct (map (\<lambda>t. snd (snd t)) (timers w)) \<and>
     (\<forall>rid h. pendingProjections (adapter w) rid = Some h \<longrightarrow>
        (\<exists>d. (d, rid, h) \<in> set (timers w)) \<and> h \<notin> settled w) \<and>
     distinct (map fst (resolveCalls w)) \<and>
     (\<forall>h \<in> settled w. h < promises w) \<and>
     (\<forall>t \<in> set (timers w).
        pendingProjections (adapter w) (fst (snd t)) = Some (snd (snd t)) \<or> snd (snd t) \<in> settled w)"

section \<open>Example inputs\<close>

definition vpA :: viewport where
  "vpA = \<lparr> bounds = \<lparr>north = Num 60, south = Num 0, east = Num 1, west = Num 0\<rparr>,
           containerRect = \<lparr>rtop = Num 0, rleft = Num 0, width = Num 800, height = Num 600\<rparr> \<rparr>"

definition vpB :: viewport where
  "vpB = \<lparr> bounds = \<lparr>north = Num 180, south = Num 0, east = Num 1, west = Num 0\<rparr>,
           containerRect = \<lparr>rtop = Num 0, rleft = Num 0, width = Num 800, height = Num 600\<rparr> \<rparr>"

definition vpD :: viewport where
  "vpD = \<lparr> bounds = \<lparr>north = Num 0, south = Num 0, east = Num (- 6), west = Num (- 6)\<rparr>,
           containerRect = \<lparr>rtop = Num 0, rleft = Num 0, width = Num 800, height = Num 600\<rparr> \<rparr>"

definition rectA :: rect where
  "rectA = \<lparr>rtop = Num 0, rleft = Num 0, width = Num 800, height = Num 600\<rparr>"

definition rectFlat :: rect where
  "rectFlat = \<lparr>rtop = Num 0, rleft = Num 0, width = Num 800, height = Num 0\<rparr>"

definition rectThin :: rect where
  "rectThin = \<lparr>rtop = Num 0, rleft = Num 0, width = Num 0, height = Num 600\<rparr>"

text \<open>A page whose URL carries four numeric bounds; its map element has zero height.\<close>

definition pgFlat :: env where
  "pgFlat = \<lparr> mapElement = Some 0, boundingRect = (\<lambda>_. rectFlat),
              paramTop = Num (5335 / 100), paramBottom = Num (5334 / 100),
              paramLeft = Num (- 627 / 100), paramRight = Num (- 624 / 100) \<rparr>"

text \<open>The same URL over a map element of zero width.\<close>

definition pgThin :: env where
  "pgThin = pgFlat\<lparr>boundingRect := (\<lambda>_. rectThin)\<rparr>"

text \<open>A page whose URL has no \<open>top\<close> parameter.\<close>

definition pgNoTop :: env where
  "pgNoTop = pgFlat\<lparr>boundingRect := (\<lambda>_. rectA), paramTop := NaN\<rparr>"

text \<open>A page whose URL has \<open>left\<close> equal to \<open>right\<close>, over a map element of 800 by 600.\<close>

definition pgD :: env where
  "pgD = pgFlat\<lparr>boundingRect := (\<lambda>_. rectA), paramRight := Num (- 627 / 100)\<rparr>"

text \<open>Adapters: with a container and no pushed viewport; without a container; with a host.\<close>

definition adU :: adapter where
  "adU = \<lparr> container = Some 0, found = True, instanceAvailable = False, viewport = None,
           pendingProjections = Map.empty, projIdCounter = 0 \<rparr>"

definition adNone :: adapter where
  "adNone = adU\<lparr>container := None, found := False\<rparr>"

definition adHost :: adapter where
  "adHost = adU\<lparr>instanceAvailable := True\<rparr>"

definition rA :: renderer where
  "rA = \<lparr>svgOverlay = Some \<lparr>drawn = [], walkGroup = None\<rparr>, pxPerMeter = Num (1 / 10)\<rparr>"

definition stNone :: settings where
  "stNone = \<lparr> enabled = True, luasLines = True, luasStops = True, dartLines = True,
              dartStations = True, irishRailLines = True, irishRailStations = True,
              opacity = 75, walkRadius5 = False, walkRadius10 = False, walkRadius20 = False \<rparr>"

text \<open>
  The variables of the module as they start, with the overlay switched on; and the
  scheduler after a first timer, set at 1000, has run its callback at 1000 and started a
  render that is still running.
\<close>

definition sched0 :: scheduler where
  "sched0 = \<lparr> overlayVisible = True, renderTimer = None, lastRender = 0,
              started = [], finished = [] \<rparr>"

definition schedA :: scheduler where
  "schedA = \<lparr> overlayVisible = True, renderTimer = None, lastRender = 1000,
              started = [1000], finished = [] \<rparr>"

definition st10 :: settings where
  "st10 = stNone\<lparr>walkRadius10 := True\<rparr>"

text \<open>The viewport that \<open>getViewport\<close> builds from the page \<open>pgD\<close>.\<close>

definition vpZero :: viewport where
  "vpZero = \<lparr> bounds = \<lparr>north = Num (5335 / 100), south = Num (5334 / 100),
                          east = Num (- 627 / 100), west = Num (- 627 / 100)\<rparr>,
              containerRect = rectA \<rparr>"

definition adHostV :: adapter where
  "adHostV = adHost\<lparr>viewport := Some vpA\<rparr>"

definition ptsA :: "geopoint list" where
  "ptsA = [\<lparr>lat = Num 60, lng = Num (1 / 2)\<rparr>]"

definition qA :: ppoint where
  "qA = \<lparr>ptx = Num 12, pty = Num 34\<rparr>"

section \<open>Arithmetic of the number model\<close>

lemma jsub_Num [simp]: "jsub (Num a) (Num b) = Num (a - b)"
  by (simp add: jsub_def jadd_def jneg_def)

lemma jadd_NaN [simp]: "jadd NaN v = NaN" "jadd v NaN = NaN"
  by (cases v; simp add: jadd_def)+

lemma jsub_NaN [simp]: "jsub NaN v = NaN" "jsub v NaN = NaN"
  by (simp_all add: jsub_def jneg_def)

lemma jmul_NaN [simp]: "jmul NaN v = NaN" "jmul v NaN = NaN"
  by (cases v; simp add: jmul_def)+

lemma jdiv_NaN [simp]: "jdiv NaN v = NaN" "jdiv v NaN = NaN"
  by (cases v; simp add: jdiv_def)+

lemma jlt_NaN [simp]: "\<not> jlt NaN v" "\<not> jlt v NaN"
  by (cases v; simp add: jlt_def)+

lemma jlt_Num [simp]: "jlt (Num a) (Num b) = (a < b)"
  by (simp add: jlt_def)

lemma jsub_self: "jsub v v = Num 0 \<or> jsub v v = NaN"
  by (cases v) (simp_all add: jsub_def jadd_def jneg_def)

lemma jdiv_zero_not_finite: "\<not> isFinite (jdiv u (Num 0))"
  by (cases u) (simp_all add: jdiv_def isFinite_def inf_of_sign_def jsign_def)

lemma jmul_not_finite: "\<not> isFinite u \<Longrightarrow> \<not> isFinite (jmul u v)"
  by (cases u; cases v) (simp_all add: jmul_def isFinite_def inf_of_sign_def jsign_def)

lemma scale_zero_span: "\<not> isFinite (jmul (jdiv u (jsub v v)) c)"
proof (rule jmul_not_finite)
  show "\<not> isFinite (jdiv u (jsub v v))"
    using jsub_self [of v] jdiv_zero_not_finite [of u] by (auto simp: isFinite_def)
qed

section \<open>The Mercator ordinate\<close>

lemma merc_angle:
  assumes "- 90 < l" "l < 90"
  shows "0 < pi / 4 + l * pi / 360" "pi / 4 + l * pi / 360 < pi / 2"
proof -
  have "(- 90) * pi < l * pi"
    by (rule mult_strict_right_mono) (use assms in simp_all)
  then have "- (pi / 4) < l * pi / 360" by simp
  then show "0 < pi / 4 + l * pi / 360" by linarith
  have "l * pi < 90 * pi"
    by (rule mult_strict_right_mono) (use assms in simp_all)
  then have "l * pi / 360 < pi / 4" by simp
  then show "pi / 4 + l * pi / 360 < pi / 2" by linarith
qed

lemma mercY_Num:
  assumes "- 90 < l" "l < 90"
  shows "mercY (Num l) = Num (merc l)"
proof -
  let ?a = "pi / 4 + l * pi / 360"
  have a: "0 < ?a" "?a < pi / 2" using merc_angle [OF assms] by simp_all
  have c: "cos ?a \<noteq> 0" using cos_gt_zero [OF a] by simp
  have t: "0 < tan ?a" using tan_gt_zero [OF a] .
  have arg: "jadd (jdiv (Num pi) (Num 4)) (jdiv (jdiv (jmul (Num l) (Num pi)) (Num 180)) (Num 2))
               = Num ?a"
    by (simp add: jadd_def jdiv_def jmul_def)
  show ?thesis
    unfolding mercY_def arg using c t by (simp add: jtan_def jlog_def merc_def)
qed

lemma merc_strict_mono:
  assumes "- 90 < a" "a < b" "b < 90"
  shows "merc a < merc b"
proof -
  have a: "0 < pi / 4 + a * pi / 360" "pi / 4 + a * pi / 360 < pi / 2"
    using merc_angle [of a] assms by simp_all
  have b: "0 < pi / 4 + b * pi / 360" "pi / 4 + b * pi / 360 < pi / 2"
    using merc_angle [of b] assms by simp_all
  have lt: "pi / 4 + a * pi / 360 < pi / 4 + b * pi / 360" using assms by simp
  have lo: "- (pi / 2) < pi / 4 + a * pi / 360" using a(1) pi_gt_zero by linarith
  have "tan (pi / 4 + a * pi / 360) < tan (pi / 4 + b * pi / 360)"
    by (rule tan_monotone [OF lo lt b(2)])
  moreover have "0 < tan (pi / 4 + a * pi / 360)" using tan_gt_zero [OF a] .
  ultimately show ?thesis by (simp add: merc_def)
qed

lemma mercY_zero: "mercY (Num 0) = Num 0"
  using mercY_Num [of 0] by (simp add: merc_def tan_45)

text \<open>
  Latitude 180 puts the argument of the tangent at \<open>3\<pi>/4\<close>, where the tangent is
  \<open>-1\<close>, and the logarithm of a negative number is NaN.
\<close>

lemma mercY_180: "mercY (Num 180) = NaN"
proof -
  have "sin (pi / 4 + pi / 2) = sin (pi / 4) * cos (pi / 2) + cos (pi / 4) * sin (pi / 2)"
    by (rule sin_add)
  then have s: "sin (pi / 4 + pi / 2) = sqrt 2 / 2" by (simp add: sin_45 cos_45)
  have "cos (pi / 4 + pi / 2) = cos (pi / 4) * cos (pi / 2) - sin (pi / 4) * sin (pi / 2)"
    by (rule cos_add)
  then have c: "cos (pi / 4 + pi / 2) = - (sqrt 2 / 2)" by (simp add: sin_45 cos_45)
  have t: "tan (pi / 4 + pi / 2) = - 1" unfolding tan_def s c by simp
  have arg: "jadd (jdiv (Num pi) (Num 4)) (jdiv (jdiv (jmul (Num 180) (Num pi)) (Num 180)) (Num 2))
               = Num (pi / 4 + pi / 2)"
    by (simp add: jadd_def jdiv_def jmul_def)
  show ?thesis unfolding mercY_def arg using c t by (simp add: jtan_def jlog_def)
qed

section \<open>Geometry projector\<close>

lemma projectAll_Nil [simp]: "projectAll [] vp = []"
  by (simp add: projectAll_def Let_def)

lemma length_projectAll [simp]: "length (projectAll ps vp) = length ps"
  by (simp add: projectAll_def Let_def)

text \<open>One point with finite coordinates under a viewport with finite bounds.\<close>

lemma project_finite:
  assumes b: "bounds vp = \<lparr>north = Num n, south = Num s, east = Num e, west = Num w\<rparr>"
    and r: "width (containerRect vp) = Num W" "height (containerRect vp) = Num H"
    and ns: "- 90 < s" "s < n" "n < 90" and we: "w < e"
    and la: "- 90 < la" "la < 90"
  shows "projectAll (\<lparr>lat = Num la, lng = Num lo\<rparr> # ps) vp =
           \<lparr>ptx = Num ((lo - w) / (e - w) * W),
            pty = Num ((merc n - merc la) / (merc n - merc s) * H)\<rparr> # projectAll ps vp"
proof -
  have n: "mercY (Num n) = Num (merc n)" using ns by (intro mercY_Num) simp_all
  have s: "mercY (Num s) = Num (merc s)" using ns by (intro mercY_Num) simp_all
  have l: "mercY (Num la) = Num (merc la)" using la by (intro mercY_Num) simp_all
  have d: "merc n - merc s \<noteq> 0" using merc_strict_mono [of s n] ns by simp
  have d': "e - w \<noteq> 0" using we by simp
  show ?thesis
    using d d' by (simp add: projectAll_def Let_def b r n s l jdiv_def jmul_def)
qed

subsection \<open>Degenerate bounds\<close>

text \<open>
  C2, as the code has it. \<open>projectAll\<close> is total: for every list of points and every
  viewport it returns one projected point for each input point. It has no guard for
  degenerate bounds and skips nothing: when east equals west it divides by the zero span
  and every \<open>x\<close> it returns is NaN or infinite, and when north equals south every \<open>y\<close> is.
\<close>

theorem projectAll_total_unguarded:
  "length (projectAll points vp) = length points \<and>
   (east (bounds vp) = west (bounds vp) \<longrightarrow>
      list_all (\<lambda>q. \<not> isFinite (ptx q)) (projectAll points vp)) \<and>
   (north (bounds vp) = south (bounds vp) \<longrightarrow>
      list_all (\<lambda>q. \<not> isFinite (pty q)) (projectAll points vp))"
  by (simp add: projectAll_def Let_def list_all_iff scale_zero_span)

theorem projectAll_total_unguarded_witness:
  "east (bounds vpD) = west (bounds vpD) \<and> north (bounds vpD) = south (bounds vpD) \<and>
   length (projectAll [\<lparr>lat = Num 0, lng = Num 1\<rparr>] vpD) = 1 \<and>
   list_all (\<lambda>q. \<not> isFinite (ptx q)) (projectAll [\<lparr>lat = Num 0, lng = Num 1\<rparr>] vpD) \<and>
   list_all (\<lambda>q. \<not> isFinite (pty q)) (projectAll [\<lparr>lat = Num 0, lng = Num 1\<rparr>] vpD)"
  using projectAll_total_unguarded [of "[\<lparr>lat = Num 0, lng = Num 1\<rparr>]" vpD]
  by (simp add: vpD_def)

text \<open>
  Against C2 as stated: under the viewport \<open>vpD\<close>, whose bounds have zero width and zero
  height, the point at latitude 0 and longitude 1 is projected, to an infinite \<open>x\<close> and a
  NaN \<open>y\<close>.
\<close>

theorem projectAll_degenerate_counterexample:
  "projectAll [\<lparr>lat = Num 0, lng = Num 1\<rparr>] vpD = [\<lparr>ptx = PInf, pty = NaN\<rparr>]"
  by (simp add: projectAll_def Let_def vpD_def mercY_zero jdiv_def jmul_def
        inf_of_sign_def jsign_def)

subsection \<open>Over the engine's arithmetic\<close>

lemma exact_ops:
  "fadd exact u v = jadd u v" "fsub exact u v = jsub u v"
  "fmul exact u v = jmul u v" "fdiv exact u v = jdiv u v"
  "ftan exact u = jtan u" "flog exact u = jlog u"
  by (cases u; cases v; simp add: fadd_def fsub_def fmul_def fdiv_def ftan_def flog_def exact_def
        jadd_def jsub_def jneg_def jmul_def jdiv_def jtan_def jlog_def)+

lemma mercY_fl_exact: "mercY_fl exact la = mercY la"
  by (simp add: mercY_fl_def mercY_def exact_ops) (simp add: exact_def)

lemma projectAll_fl_exact: "projectAll_fl exact points vp = projectAll points vp"
  by (simp add: projectAll_fl_def projectAll_def exact_ops mercY_fl_exact)

lemma fdiv_zero_not_finite: "\<not> isFinite (fdiv E u (Num 0))"
  by (cases u) (simp_all add: fdiv_def jdiv_def isFinite_def inf_of_sign_def jsign_def)

lemma fmul_not_finite: "\<not> isFinite u \<Longrightarrow> \<not> isFinite (fmul E u v)"
  by (cases u; cases v) (simp_all add: fmul_def jmul_def isFinite_def inf_of_sign_def jsign_def)

text \<open>Two bounds whose ordinates round to the same number leave no finite \<open>y\<close>.\<close>

lemma projectAll_fl_collapse:
  assumes "representable E 0"
    and "mercY_fl E (north (bounds vp)) = Num y" "mercY_fl E (south (bounds vp)) = Num y"
  shows "list_all (\<lambda>q. \<not> isFinite (pty q)) (projectAll_fl E points vp)"
proof -
  have "fsub E (Num y) (Num y) = Num 0" using assms(1) by (simp add: fsub_def representable_def)
  then show ?thesis
    by (simp add: projectAll_fl_def Let_def assms(2,3) list_all_iff fmul_not_finite
          fdiv_zero_not_finite)
qed

lemma jle_refl: "v \<noteq> NaN \<Longrightarrow> jle v v"
  by (simp add: jle_def)

lemma jle_Num [simp]: "jle (Num a) (Num b) = (a \<le> b)"
  by (auto simp: jle_def jlt_def)



lemma jle_cases:
  "jle u v \<longleftrightarrow>
     (case (u, v) of
        (NaN, _) \<Rightarrow> False | (_, NaN) \<Rightarrow> False
      | (Num a, Num b) \<Rightarrow> a \<le> b
      | (NInf, _) \<Rightarrow> True | (_, PInf) \<Rightarrow> True | _ \<Rightarrow> False)"
  by (cases u; cases v) (auto simp: jle_def jlt_def)

lemma jle_consts [simp]:
  "\<not> jle NaN v" "\<not> jle v NaN" "\<not> jle (Num a) NInf" "\<not> jle PInf (Num a)"
  "\<not> jle PInf NInf" "jle NInf (Num a)" "jle (Num a) PInf" "jle NInf PInf"
  "jle PInf PInf" "jle NInf NInf"
  by (cases v; simp add: jle_cases)+









lemma exact_representable: "representable exact x"
  by (simp add: representable_def exact_def)

text \<open>
  C1, as the code computes. Take an engine among whose numbers are 0, 1, \<open>W\<close> and \<open>H\<close>, and
  a viewport with finite bounds, container width \<open>W\<close> and height \<open>H\<close>, whose longitude span
  east - west and ordinate span mercY(north) - mercY(south), as computed, are finite and
  not zero. Then \<open>projectAll\<close> gives a point the \<open>x\<close> ((lng - west) / span) times \<open>W\<close> and the \<open>y\<close>
  ((mercY(north) - mercY(lat)) / span) times \<open>H\<close>, each operation rounded, and it sends the corners
  (west, north), (east, north), (west, south), (east, south) of the bounds exactly to
  \<open>(0, 0)\<close>, \<open>(W, 0)\<close>, \<open>(0, H)\<close>, \<open>(W, H)\<close>. North above south and east beyond west do not
  suffice: the ordinate of a bound outside the open range can be NaN, and two close
  latitudes can round to one ordinate, which \<open>projectAll_fl_collapse\<close> shows to leave no
  finite \<open>y\<close>.
\<close>

theorem projectAll_fl_corners:
  assumes E: "representable E 0" "representable E 1" "representable E W" "representable E H"
    and b: "bounds vp = \<lparr>north = Num n, south = Num s, east = Num e, west = Num w\<rparr>"
    and r: "width (containerRect vp) = Num W" "height (containerRect vp) = Num H"
    and sx: "fsub E (Num e) (Num w) = Num dx" "dx \<noteq> 0"
    and on: "mercY_fl E (Num n) = Num yn" and os: "mercY_fl E (Num s) = Num ys"
    and sy: "fsub E (Num yn) (Num ys) = Num dy" "dy \<noteq> 0"
  shows "(\<forall>p. projectAll_fl E [p] vp =
            [\<lparr> ptx = fmul E (fdiv E (fsub E (lng p) (Num w)) (Num dx)) (Num W),
               pty = fmul E (fdiv E (fsub E (Num yn) (mercY_fl E (lat p))) (Num dy)) (Num H) \<rparr>]) \<and>
         projectAll_fl E [\<lparr>lat = Num n, lng = Num w\<rparr>, \<lparr>lat = Num n, lng = Num e\<rparr>,
                          \<lparr>lat = Num s, lng = Num w\<rparr>, \<lparr>lat = Num s, lng = Num e\<rparr>] vp =
           [\<lparr>ptx = Num 0, pty = Num 0\<rparr>, \<lparr>ptx = Num W, pty = Num 0\<rparr>,
            \<lparr>ptx = Num 0, pty = Num H\<rparr>, \<lparr>ptx = Num W, pty = Num H\<rparr>]"
proof -
  have z: "fl E 0 = Num 0" and o: "fl E 1 = Num 1" and fw: "fl E W = Num W" and fh: "fl E H = Num H"
    using E by (simp_all add: representable_def)
  have s0: "fsub E (Num a) (Num a) = Num 0" for a by (simp add: fsub_def z)
  have d0: "fdiv E (Num 0) (Num c) = Num 0" if "c \<noteq> 0" for c using that by (simp add: fdiv_def z)
  have d1: "fdiv E (Num c) (Num c) = Num 1" if "c \<noteq> 0" for c using that by (simp add: fdiv_def o)
  have m0: "fmul E (Num 0) (Num c) = Num 0" for c by (simp add: fmul_def z)
  have m1: "fmul E (Num 1) (Num W) = Num W" "fmul E (Num 1) (Num H) = Num H"
    by (simp_all add: fmul_def fw fh)
  have one: "\<forall>p. projectAll_fl E [p] vp =
            [\<lparr> ptx = fmul E (fdiv E (fsub E (lng p) (Num w)) (Num dx)) (Num W),
               pty = fmul E (fdiv E (fsub E (Num yn) (mercY_fl E (lat p))) (Num dy)) (Num H) \<rparr>]"
    by (simp add: projectAll_fl_def Let_def b r sx on os sy)
  have four: "projectAll_fl E [\<lparr>lat = Num n, lng = Num w\<rparr>, \<lparr>lat = Num n, lng = Num e\<rparr>,
                          \<lparr>lat = Num s, lng = Num w\<rparr>, \<lparr>lat = Num s, lng = Num e\<rparr>] vp =
           [\<lparr>ptx = Num 0, pty = Num 0\<rparr>, \<lparr>ptx = Num W, pty = Num 0\<rparr>,
            \<lparr>ptx = Num 0, pty = Num H\<rparr>, \<lparr>ptx = Num W, pty = Num H\<rparr>]"
    using sx(2) sy(2)
    by (simp add: projectAll_fl_def Let_def b r sx(1) on os sy(1) s0 d0 d1 m0 m1)
  show ?thesis using one four by blast
qed

theorem projectAll_fl_corners_witness:
  "projectAll_fl exact [\<lparr>lat = Num 60, lng = Num 0\<rparr>, \<lparr>lat = Num 60, lng = Num 1\<rparr>,
                        \<lparr>lat = Num 0, lng = Num 0\<rparr>, \<lparr>lat = Num 0, lng = Num 1\<rparr>] vpA =
     [\<lparr>ptx = Num 0, pty = Num 0\<rparr>, \<lparr>ptx = Num 800, pty = Num 0\<rparr>,
      \<lparr>ptx = Num 0, pty = Num 600\<rparr>, \<lparr>ptx = Num 800, pty = Num 600\<rparr>]"
proof -
  have b: "bounds vpA = \<lparr>north = Num 60, south = Num 0, east = Num 1, west = Num 0\<rparr>"
    and r: "width (containerRect vpA) = Num 800" "height (containerRect vpA) = Num 600"
    by (simp_all add: vpA_def)
  have sx: "fsub exact (Num 1) (Num 0) = Num 1" by (simp add: exact_ops)
  have on: "mercY_fl exact (Num 60) = Num (merc 60)" by (simp add: mercY_fl_exact mercY_Num)
  have os: "mercY_fl exact (Num 0) = Num 0" by (simp add: mercY_fl_exact mercY_zero)
  have sy: "fsub exact (Num (merc 60)) (Num 0) = Num (merc 60)" by (simp add: exact_ops)
  have ne: "merc 60 \<noteq> 0" using merc_strict_mono [of 0 60] mercY_Num [of 0] mercY_zero by simp
  show ?thesis
    using projectAll_fl_corners [OF exact_representable exact_representable exact_representable exact_representable
        b r sx _ on os sy ne]
    by simp
qed

text \<open>
  Against C1 as stated: the viewport \<open>vpB\<close> has north 180 above south 0, east beyond west
  and a positive width and height; its corner (west, south) lies at latitude 0, inside
  the open range, and is sent to a NaN \<open>y\<close>, not to the height 600.
\<close>

theorem projectAll_corners_counterexample:
  "projectAll [\<lparr>lat = Num 0, lng = Num 0\<rparr>] vpB = [\<lparr>ptx = Num 0, pty = NaN\<rparr>]"
  by (simp add: projectAll_def Let_def vpB_def mercY_180 jdiv_def jmul_def)




section \<open>Viewport of the adapter\<close>

text \<open>
  C10. With no viewport pushed, \<open>getViewport\<close> returns null when one of the four URL
  parameters parses to NaN, and also when no container has been detected or the
  container's bounding rectangle has zero width, whatever the parameters are; with four
  numbers, a container and a non-zero width it returns a viewport even when the
  rectangle has zero height.
\<close>

theorem getViewport_from_URL:
  assumes "viewport a = None"
  shows "(paramTop pg = NaN \<or> paramBottom pg = NaN \<or> paramLeft pg = NaN \<or> paramRight pg = NaN
            \<longrightarrow> getViewport pg a = None) \<and>
         (container a = None \<longrightarrow> getViewport pg a = None) \<and>
         (\<forall>c. container a = Some c \<and> width (boundingRect pg c) = Num 0
            \<longrightarrow> getViewport pg a = None) \<and>
         (\<forall>c. paramTop pg \<noteq> NaN \<and> paramBottom pg \<noteq> NaN \<and> paramLeft pg \<noteq> NaN \<and>
              paramRight pg \<noteq> NaN \<and> container a = Some c \<and>
              width (boundingRect pg c) \<noteq> Num 0 \<and> height (boundingRect pg c) = Num 0
            \<longrightarrow> getViewport pg a =
                  Some \<lparr> bounds = \<lparr>north = paramTop pg, south = paramBottom pg,
                                   east = paramRight pg, west = paramLeft pg\<rparr>,
                         containerRect = \<lparr>rtop = rtop (boundingRect pg c),
                                          rleft = rleft (boundingRect pg c),
                                          width = width (boundingRect pg c),
                                          height = Num 0\<rparr> \<rparr>)"
  using assms by (auto simp: getViewport_def viewportFromURL_def Let_def)

theorem getViewport_from_URL_witness:
  "viewport adU = None \<and> viewport adNone = None \<and>
   paramTop pgNoTop = NaN \<and> getViewport pgNoTop adU = None \<and>
   container adNone = None \<and> getViewport pgFlat adNone = None \<and>
   container adU = Some 0 \<and> width (boundingRect pgThin 0) = Num 0 \<and>
   getViewport pgThin adU = None \<and>
   height (boundingRect pgFlat 0) = Num 0 \<and>
   getViewport pgFlat adU =
     Some \<lparr> bounds = \<lparr>north = Num (5335 / 100), south = Num (5334 / 100),
                      east = Num (- 624 / 100), west = Num (- 627 / 100)\<rparr>,
            containerRect = rectFlat \<rparr>"
proof -
  have u: "viewport adU = None" and n: "viewport adNone = None"
    by (simp_all add: adU_def adNone_def)
  show ?thesis
    using getViewport_from_URL [OF u, of pgNoTop] getViewport_from_URL [OF n, of pgFlat]
      getViewport_from_URL [OF u, of pgThin] getViewport_from_URL [OF u, of pgFlat]
    by (simp add: adU_def adNone_def pgNoTop_def pgFlat_def pgThin_def rectFlat_def rectThin_def)
qed

section \<open>Render scheduler\<close>

text \<open>
  C9, as the code has it. \<open>scheduleRender\<close> called at time \<open>t\<close> changes nothing while a
  render timer is pending; otherwise it sets the timer with the delay
  \<open>max 0 (50 - (t - lastRender))\<close>. \<open>lastRender\<close> is the time at which the callback of the
  previous timer ran: the callback stamps it before it calls \<open>render\<close>, whether it calls it
  or not, and nothing stamps it when a render finishes. A callback that runs no sooner
  than its delay clears the timer, stamps its own time, runs at least 50 ms after
  \<open>lastRender\<close> and after every render start that \<open>lastRender\<close> bounds, and calls \<open>render\<close>
  exactly when the overlay is visible and the map was found; it leaves the log of
  finished renders alone.
\<close>

theorem scheduleRender_debounce:
  "(renderTimer s \<noteq> None \<longrightarrow> scheduleRender t s = s) \<and>
   (renderTimer s = None \<longrightarrow>
      scheduleRender t s = s\<lparr>renderTimer := Some (t, max 0 (50 - (t - lastRender s)))\<rparr>) \<and>
   (\<forall>t0 d t'. renderTimer s = None \<and> renderTimer (scheduleRender t s) = Some (t0, d) \<and>
        t0 + d \<le> t' \<longrightarrow>
        renderTimer (renderCallback t' a (scheduleRender t s)) = None \<and>
        lastRender (renderCallback t' a (scheduleRender t s)) = t' \<and>
        lastRender s + 50 \<le> t' \<and>
        started (renderCallback t' a (scheduleRender t s)) =
          (if overlayVisible s \<and> found a then t' # started s else started s) \<and>
        finished (renderCallback t' a (scheduleRender t s)) = finished s \<and>
        (list_all (\<lambda>u. u \<le> lastRender s) (started s) \<longrightarrow>
           list_all (\<lambda>u. u + 50 \<le> t') (started s)))"
  by (auto simp: scheduleRender_def renderCallback_def Let_def list_all_iff)

theorem scheduleRender_debounce_witness:
  "renderTimer schedA = None \<and>
   scheduleRender 1020 schedA = schedA\<lparr>renderTimer := Some (1020, 30)\<rparr> \<and>
   scheduleRender 1030 (scheduleRender 1020 schedA) = scheduleRender 1020 schedA \<and>
   lastRender (renderCallback 1050 adU (scheduleRender 1020 schedA)) = 1050 \<and>
   renderTimer (renderCallback 1050 adU (scheduleRender 1020 schedA)) = None \<and>
   started (renderCallback 1050 adU (scheduleRender 1020 schedA)) = [1050, 1000] \<and>
   started (renderCallback 1050 adNone (scheduleRender 1020 schedA)) = [1000] \<and>
   list_all (\<lambda>u. u \<le> lastRender schedA) (started schedA) \<and>
   list_all (\<lambda>u. u + 50 \<le> 1050) (started schedA)"
proof -
  have n: "renderTimer schedA = None" by (simp add: schedA_def)
  have a: "scheduleRender 1020 schedA = schedA\<lparr>renderTimer := Some (1020, 30)\<rparr>"
    using scheduleRender_debounce [of schedA 1020 adU] n by (simp add: schedA_def)
  have p: "renderTimer (scheduleRender 1020 schedA) \<noteq> None" by (simp add: a)
  have b: "scheduleRender 1030 (scheduleRender 1020 schedA) = scheduleRender 1020 schedA"
    using scheduleRender_debounce [of "scheduleRender 1020 schedA" 1030 adU] p by blast
  have c: "renderTimer (renderCallback 1050 adU (scheduleRender 1020 schedA)) = None \<and>
        lastRender (renderCallback 1050 adU (scheduleRender 1020 schedA)) = 1050 \<and>
        started (renderCallback 1050 adU (scheduleRender 1020 schedA)) = [1050, 1000]"
    using scheduleRender_debounce [of schedA 1020 adU, THEN conjunct2, THEN conjunct2,
        rule_format, of 1020 30 1050] n a
    by (simp add: schedA_def adU_def)
  have d: "started (renderCallback 1050 adNone (scheduleRender 1020 schedA)) = [1000]"
    using scheduleRender_debounce [of schedA 1020 adNone, THEN conjunct2, THEN conjunct2,
        rule_format, of 1020 30 1050] n a
    by (simp add: schedA_def adNone_def adU_def)
  have e: "list_all (\<lambda>u. u \<le> lastRender schedA) (started schedA)"
    by (simp add: schedA_def)
  have f: "list_all (\<lambda>u. u + 50 \<le> 1050) (started schedA)"
    using scheduleRender_debounce [of schedA 1020 adU, THEN conjunct2, THEN conjunct2,
        rule_format, of 1020 30 1050] n a e
    by simp
  show ?thesis using n a b c d e f by simp
qed

text \<open>
  Against C9 as stated. From the start of the module, with a host whose answer render
  waits for: a timer set at 1000 runs its callback at 1000, which starts a render and
  leaves the scheduler \<open>schedA\<close>; that render finishes at 2000. \<open>scheduleRender\<close> called
  at 2010 sets a timer of delay 0, not of the 40 ms that a spacing of 50 ms after the
  finished render would need, and the callback run at 2010 starts the next render 10 ms
  after the previous one finished.
\<close>

theorem scheduleRender_spacing_counterexample:
  "renderCallback 1000 adHost (scheduleRender 1000 sched0) = schedA \<and>
   finished (renderFinishes 2000 schedA) = [2000] \<and>
   renderTimer (scheduleRender 2010 (renderFinishes 2000 schedA)) = Some (2010, 0) \<and>
   started (renderCallback 2010 adHost (scheduleRender 2010 (renderFinishes 2000 schedA)))
     = [2010, 1000] \<and>
   finished (renderCallback 2010 adHost (scheduleRender 2010 (renderFinishes 2000 schedA)))
     = [2000]"
  by (simp add: renderFinishes_def scheduleRender_def renderCallback_def Let_def schedA_def
        sched0_def adHost_def adU_def)

section \<open>Walking radius circles\<close>

lemma not_jle_of_jgt: "jgt v (Num 0) \<Longrightarrow> \<not> jle v (Num 0)"
  by (cases v) (auto simp: jgt_def jle_def jlt_def)

text \<open>
  C8. On the hover of a marker, with the overlay in place and a positive scale factor:
  when the three walking-radius settings are false \<open>showWalkRadius\<close> only removes the
  previous group and adds no ring; when exactly one is true it adds exactly one ring
  circle, of radius 360, 720 or 1440 times the scale factor for \<open>walkRadius5\<close>,
  \<open>walkRadius10\<close> or \<open>walkRadius20\<close>.
\<close>

theorem showWalkRadius_rings:
  assumes ov: "svgOverlay r \<noteq> None" and px: "jgt (pxPerMeter r) (Num 0)"
  shows "(\<not> walkRadius5 st \<and> \<not> walkRadius10 st \<and> \<not> walkRadius20 st \<longrightarrow>
            showWalkRadius st c r = hideWalkRadius r \<and> ringsShown (showWalkRadius st c r) = []) \<and>
         (walkRadius5 st \<and> \<not> walkRadius10 st \<and> \<not> walkRadius20 st \<longrightarrow>
            ringsShown (showWalkRadius st c r) = [jmul (Num 360) (pxPerMeter r)]) \<and>
         (\<not> walkRadius5 st \<and> walkRadius10 st \<and> \<not> walkRadius20 st \<longrightarrow>
            ringsShown (showWalkRadius st c r) = [jmul (Num 720) (pxPerMeter r)]) \<and>
         (\<not> walkRadius5 st \<and> \<not> walkRadius10 st \<and> walkRadius20 st \<longrightarrow>
            ringsShown (showWalkRadius st c r) = [jmul (Num 1440) (pxPerMeter r)])"
proof -
  obtain o1 where o1: "svgOverlay r = Some o1" using ov by auto
  have h: "svgOverlay (hideWalkRadius r) = Some (o1\<lparr>walkGroup := None\<rparr>)"
    "pxPerMeter (hideWalkRadius r) = pxPerMeter r"
    by (simp_all add: hideWalkRadius_def o1)
  have g: "\<not> jle (pxPerMeter r) (Num 0)" using px by (rule not_jle_of_jgt)
  show ?thesis
    using g by (simp add: showWalkRadius_def Let_def h WALK_RADII_def setting_def ringsShown_def)
qed

theorem showWalkRadius_rings_witness:
  "svgOverlay rA = Some \<lparr>drawn = [], walkGroup = None\<rparr> \<and> jgt (pxPerMeter rA) (Num 0) \<and>
   ringsShown (showWalkRadius stNone (Num 100, Num 200) rA) = [] \<and>
   ringsShown (showWalkRadius st10 (Num 100, Num 200) rA) = [Num 72]"
proof -
  have ov: "svgOverlay rA \<noteq> None" and px: "jgt (pxPerMeter rA) (Num 0)"
    by (simp_all add: rA_def jgt_def jlt_def)
  show ?thesis
    using showWalkRadius_rings [OF ov px, of stNone "(Num 100, Num 200)"]
      showWalkRadius_rings [OF ov px, of st10 "(Num 100, Num 200)"] px
    by (simp add: rA_def stNone_def st10_def jmul_def hideWalkRadius_def ringsShown_def)
qed

section \<open>Render: pixel positions and scale\<close>

text \<open>
  C4. In the projection step of \<open>render\<close> the answer of the host's projector is used
  when \<open>instanceAvailable\<close> is true and the answer has at least one entry that is not
  null. Otherwise (no host, a timeout, an answer of nulls only) the points are projected
  by \<open>projectAll\<close> under the viewport of \<open>getViewport\<close>, and when that viewport is null
  \<open>render\<close> returns with the overlay and the scale factor as they were.
\<close>

theorem render_pixel_resolution:
  "(\<forall>ps. instanceAvailable a0 \<and> answer = Some ps \<and> list_ex (\<lambda>p. p \<noteq> None) ps \<longrightarrow>
      resolvePixels pg a0 a1 answer pts = Some ps) \<and>
   (\<not> (instanceAvailable a0 \<and> (\<exists>ps. answer = Some ps \<and> list_ex (\<lambda>p. p \<noteq> None) ps)) \<longrightarrow>
      resolvePixels pg a0 a1 answer pts =
        map_option (\<lambda>vp. map Some (projectAll pts vp)) (getViewport pg a1) \<and>
      (getViewport pg a1 = None \<longrightarrow> render pg a0 a1 answer pts r = Inr r))"
  by (auto simp: resolvePixels_def render_def Let_def split: option.splits)

theorem render_pixel_resolution_witness:
  "resolvePixels pgFlat adHost adHost (Some [Some qA, None]) ptsA = Some [Some qA, None] \<and>
   resolvePixels pgFlat adHost adHostV None ptsA = Some [Some \<lparr>ptx = Num 400, pty = Num 0\<rparr>] \<and>
   resolvePixels pgFlat adHost adHostV (Some [None]) ptsA = Some [Some \<lparr>ptx = Num 400, pty = Num 0\<rparr>] \<and>
   resolvePixels pgFlat adU adHostV (Some [Some qA]) ptsA = Some [Some \<lparr>ptx = Num 400, pty = Num 0\<rparr>] \<and>
   getViewport pgNoTop adU = None \<and>
   render pgNoTop adHost adU None ptsA rA = Inr rA"
proof -
  have v: "getViewport pgFlat adHostV = Some vpA"
    by (simp add: getViewport_def adHostV_def)
  have n: "getViewport pgNoTop adU = None"
    by (simp add: getViewport_def viewportFromURL_def adU_def pgNoTop_def)
  have b: "bounds vpA = \<lparr>north = Num 60, south = Num 0, east = Num 1, west = Num 0\<rparr>"
    and r: "width (containerRect vpA) = Num 800" "height (containerRect vpA) = Num 600"
    by (simp_all add: vpA_def)
  have p: "projectAll ptsA vpA = [\<lparr>ptx = Num 400, pty = Num 0\<rparr>]"
    unfolding ptsA_def by (subst project_finite [OF b r]) simp_all
  have h: "instanceAvailable adHost" "\<not> instanceAvailable adU"
    by (simp_all add: adHost_def adU_def)
  show ?thesis
    using render_pixel_resolution [of adHost "Some [Some qA, None]" pgFlat adHost ptsA rA]
      render_pixel_resolution [of adHost None pgFlat adHostV ptsA rA]
      render_pixel_resolution [of adHost "Some [None]" pgFlat adHostV ptsA rA]
      render_pixel_resolution [of adU "Some [Some qA]" pgFlat adHostV ptsA rA]
      render_pixel_resolution [of adHost None pgNoTop adU ptsA rA]
    by (simp add: v n p h)
qed

text \<open>
  The scale step takes the viewport when there is one and the first two points only when
  there is none; the branch of the two points assigns nothing when their longitudes are
  equal.
\<close>

lemma scaleStep_prefers_viewport: "scaleStep (Some v) pts projected old = Inr (scaleFromViewport v)"
  by (simp add: scaleStep_def)

lemma scaleStep_without_viewport: "scaleStep None pts projected old = scaleFromPoints pts projected old"
  by (simp add: scaleStep_def)

lemma scaleFromPoints_guard:
  "lng p1 = lng p0 \<Longrightarrow> scaleFromPoints (p0 # p1 # ps) (Some c0 # Some c1 # qs) old = Inr old"
  using jsub_self [of "lng p0"]
  by (auto simp: scaleFromPoints_def Let_def jabs_def jgt_def jlt_def)

text \<open>
  C7 at a viewport of zero longitude span. The page \<open>pgD\<close> has \<open>left\<close> equal to \<open>right\<close>
  in its URL and a map element of 800 by 600; no viewport was pushed. \<open>getViewport\<close>
  builds \<open>vpZero\<close> from it, the branch of the viewport divides the width by the zero
  span, \<open>render\<close> stores an infinite scale factor, and a later hover with the 10-minute
  ring enabled draws a circle of infinite radius.
\<close>

theorem render_scale_zero_span:
  "getViewport pgD adU = Some vpZero \<and>
   east (bounds vpZero) = west (bounds vpZero) \<and>
   render pgD adU adU None pts rA =
     Inr \<lparr>svgOverlay = Some \<lparr>drawn = map Some (projectAll pts vpZero), walkGroup = None\<rparr>,
          pxPerMeter = PInf\<rparr> \<and>
   ringsShown (showWalkRadius st10 c
      \<lparr>svgOverlay = Some \<lparr>drawn = map Some (projectAll pts vpZero), walkGroup = None\<rparr>,
       pxPerMeter = PInf\<rparr>) = [PInf]"
proof -
  have v: "getViewport pgD adU = Some vpZero"
    by (simp add: getViewport_def viewportFromURL_def Let_def adU_def pgD_def pgFlat_def vpZero_def
          rectA_def)
  have s: "scaleFromViewport vpZero = PInf"
    by (simp add: scaleFromViewport_def Let_def vpZero_def rectA_def jadd_def jdiv_def jmul_def
          jcos_def inf_of_sign_def)
  have ia: "\<not> instanceAvailable adU" by (simp add: adU_def)
  have r: "render pgD adU adU None pts rA =
     Inr \<lparr>svgOverlay = Some \<lparr>drawn = map Some (projectAll pts vpZero), walkGroup = None\<rparr>,
          pxPerMeter = PInf\<rparr>"
    using ia by (simp add: render_def resolvePixels_def scaleStep_def v s rA_def)
  have w: "ringsShown (showWalkRadius st10 c
      \<lparr>svgOverlay = Some \<lparr>drawn = map Some (projectAll pts vpZero), walkGroup = None\<rparr>,
       pxPerMeter = PInf\<rparr>) = [PInf]"
    by (simp add: showWalkRadius_def hideWalkRadius_def ringsShown_def Let_def WALK_RADII_def
          setting_def st10_def stNone_def jle_def jlt_def jmul_def inf_of_sign_def jsign_def)
  show ?thesis using v r w by (simp add: vpZero_def)
qed

section \<open>Runs of the adapter\<close>

lemma consistentI:
  assumes "\<And>t. t \<in> set (timers w) \<Longrightarrow> fst (snd t) \<le> projIdCounter (adapter w) \<and> snd (snd t) < promises w"
    and "distinct (map (\<lambda>t. fst (snd t)) (timers w))"
    and "distinct (map (\<lambda>t. snd (snd t)) (timers w))"
    and "\<And>rid h. pendingProjections (adapter w) rid = Some h \<Longrightarrow>
        (\<exists>d. (d, rid, h) \<in> set (timers w)) \<and> h \<notin> settled w"
    and "distinct (map fst (resolveCalls w))"
    and "\<And>h. h \<in> settled w \<Longrightarrow> h < promises w"
    and "\<And>t. t \<in> set (timers w) \<Longrightarrow>
        pendingProjections (adapter w) (fst (snd t)) = Some (snd (snd t)) \<or> snd (snd t) \<in> settled w"
  shows "consistent w"
  unfolding consistent_def using assms by blast

lemma consistentD:
  assumes "consistent w"
  shows "t \<in> set (timers w) \<Longrightarrow> fst (snd t) \<le> projIdCounter (adapter w)"
    and "t \<in> set (timers w) \<Longrightarrow> snd (snd t) < promises w"
    and "distinct (map (\<lambda>t. fst (snd t)) (timers w))"
    and "distinct (map (\<lambda>t. snd (snd t)) (timers w))"
    and "pendingProjections (adapter w) rid = Some h \<Longrightarrow> \<exists>d. (d, rid, h) \<in> set (timers w)"
    and "pendingProjections (adapter w) rid = Some h \<Longrightarrow> h \<notin> settled w"
    and "distinct (map fst (resolveCalls w))"
    and "h \<in> settled w \<Longrightarrow> h < promises w"
    and "t \<in> set (timers w) \<Longrightarrow>
        pendingProjections (adapter w) (fst (snd t)) = Some (snd (snd t)) \<or> snd (snd t) \<in> settled w"
  using assms unfolding consistent_def by blast+

lemma consistent_initial: "consistent (initial pg)"
  by (simp add: consistent_def initial_def settled_def)

lemma consistent_project: "consistent w \<Longrightarrow> consistent (snd (project pts w))"
  unfolding consistent_def project_def Let_def settled_def
  by (auto simp: image_iff)

lemma detect_fields [simp]:
  "pendingProjections (detect pg a) = pendingProjections a"
  "projIdCounter (detect pg a) = projIdCounter a"
  "instanceAvailable (detect pg a) = instanceAvailable a"
  "viewport (detect pg a) = viewport a"
  by (simp_all add: detect_def Let_def)

lemma unique_timer:
  assumes "distinct (map (\<lambda>t. fst (snd t)) ts)" "(d, rid, h) \<in> set ts" "(d', rid, h') \<in> set ts"
  shows "d' = d \<and> h' = h"
proof -
  have "inj_on (\<lambda>t. fst (snd t)) (set ts)" using assms(1) by (simp add: distinct_map)
  from inj_onD [OF this, of "(d, rid, h)" "(d', rid, h')"] assms(2,3) show ?thesis by simp
qed

lemma unique_promise:
  assumes "distinct (map (\<lambda>t. snd (snd t)) ts)" "(d, rid, h) \<in> set ts" "(d', rid', h) \<in> set ts"
  shows "d' = d \<and> rid' = rid"
proof -
  have "inj_on (\<lambda>t. snd (snd t)) (set ts)" using assms(1) by (simp add: distinct_map)
  from inj_onD [OF this, of "(d, rid, h)" "(d', rid', h)"] assms(2,3) show ?thesis by simp
qed

lemma distinct_map_remove1:
  assumes "distinct (map f xs)"
  shows "distinct (map f (remove1 x xs))"
proof -
  have "inj_on f (set (remove1 x xs))"
    using assms set_remove1_subset [of x xs] by (auto simp: distinct_map intro: inj_on_subset)
  then show ?thesis using assms by (simp add: distinct_map)
qed

lemma distinct_of_map: "distinct (map f xs) \<Longrightarrow> distinct xs"
  by (simp add: distinct_map)

text \<open>Resolving the promise stored under \<open>rid\<close> and removing the entry.\<close>

lemma consistent_settle:
  assumes i: "consistent w" and p: "pendingProjections (adapter w) rid = Some h"
    and w': "adapter w' = (adapter w)\<lparr>pendingProjections := (pendingProjections (adapter w))(rid := None)\<rparr>"
      "resolveCalls w' = resolveCalls w @ [(h, ans)]"
      "promises w' = promises w"
    and ts: "set (timers w') \<subseteq> set (timers w)"
      "distinct (map (\<lambda>t. fst (snd t)) (timers w'))"
      "distinct (map (\<lambda>t. snd (snd t)) (timers w'))"
      "\<And>t. t \<in> set (timers w) \<Longrightarrow> t \<notin> set (timers w') \<Longrightarrow> fst (snd t) = rid"
  shows "consistent w'"
proof (rule consistentI)
  from consistentD(5) [OF i p] obtain d where t: "(d, rid, h) \<in> set (timers w)" by blast
  have f: "h \<notin> settled w" by (rule consistentD(6) [OF i p])
  have s: "settled w' = insert h (settled w)" by (auto simp: settled_def w')
  have pe: "pendingProjections (adapter w') = (pendingProjections (adapter w))(rid := None)"
    by (simp add: w')
  have other: "h' \<noteq> h" if "pendingProjections (adapter w) rid' = Some h'" "rid' \<noteq> rid" for rid' h'
  proof
    assume e: "h' = h"
    from consistentD(5) [OF i that(1)] obtain d' where "(d', rid', h') \<in> set (timers w)" by blast
    with e t unique_promise [OF consistentD(4) [OF i]] have "rid' = rid" by blast
    with that(2) show False by simp
  qed
  show "distinct (map (\<lambda>t. fst (snd t)) (timers w'))" by (rule ts(2))
  show "distinct (map (\<lambda>t. snd (snd t)) (timers w'))" by (rule ts(3))
  show "distinct (map fst (resolveCalls w'))"
    using consistentD(7) [OF i] f by (simp add: w' settled_def)
  show "fst (snd t) \<le> projIdCounter (adapter w') \<and> snd (snd t) < promises w'"
    if "t \<in> set (timers w')" for t
    using that ts(1) consistentD(1,2) [OF i, of t] by (auto simp: w')
  show "h' < promises w'" if "h' \<in> settled w'" for h'
    using that consistentD(8) [OF i, of h'] consistentD(2) [OF i t] by (auto simp: s w')
  show "(\<exists>d. (d, rid', h') \<in> set (timers w')) \<and> h' \<notin> settled w'"
    if q: "pendingProjections (adapter w') rid' = Some h'" for rid' h'
  proof -
    from q have ne: "rid' \<noteq> rid" and q': "pendingProjections (adapter w) rid' = Some h'"
      by (auto simp: pe split: if_splits)
    from consistentD(5) [OF i q'] obtain d' where d': "(d', rid', h') \<in> set (timers w)" by blast
    have "(d', rid', h') \<in> set (timers w')" using ts(4) [OF d'] ne by auto
    moreover have "h' \<notin> settled w'" using consistentD(6) [OF i q'] other [OF q' ne] by (simp add: s)
    ultimately show ?thesis by blast
  qed
  show "pendingProjections (adapter w') (fst (snd t)) = Some (snd (snd t)) \<or> snd (snd t) \<in> settled w'"
    if "t \<in> set (timers w')" for t
  proof -
    have m: "t \<in> set (timers w)" using that ts(1) by blast
    show ?thesis
    proof (cases "fst (snd t) = rid")
      case True
      from consistentD(9) [OF i m] True p show ?thesis by (auto simp: s)
    next
      case False
      from consistentD(9) [OF i m] False show ?thesis by (auto simp: s pe)
    qed
  qed
qed

lemma consistent_handleMessage: "consistent w \<Longrightarrow> consistent (handleMessage m w)"
proof (cases m)
  case (PROJECT_RESPONSE rid ans)
  assume i: "consistent w"
  show ?thesis
  proof (cases "pendingProjections (adapter w) rid")
    case None
    then show ?thesis using i PROJECT_RESPONSE by simp
  next
    case (Some h)
    show ?thesis
      unfolding PROJECT_RESPONSE
      by (rule consistent_settle [OF i Some, of _ ans]) (simp_all add: Some Let_def consistentD(3,4) [OF i])
  qed
qed (auto simp: consistent_def settled_def)

lemma consistent_fire: "consistent w \<Longrightarrow> consistent (step (Fire t) w)"
proof -
  assume i: "consistent w"
  obtain d rid h where t: "t = (d, rid, h)" by (cases t) auto
  show ?thesis
  proof (cases "t \<in> set (timers w) \<and> d \<le> now w")
    case False
    then show ?thesis using i by (auto simp: t)
  next
    case True
    then have m: "(d, rid, h) \<in> set (timers w)" by (simp add: t)
    have tr: "fst (snd t) = rid" by (simp add: t)
    have dt: "distinct (timers w)" using consistentD(3) [OF i] by (rule distinct_of_map)
    have rm: "set (remove1 t (timers w)) = set (timers w) - {t}" using dt by simp
    have d1: "distinct (map (\<lambda>t. fst (snd t)) (remove1 t (timers w)))"
      using consistentD(3) [OF i] by (rule distinct_map_remove1) 
    have d2: "distinct (map (\<lambda>t. snd (snd t)) (remove1 t (timers w)))"
      using consistentD(4) [OF i] by (rule distinct_map_remove1) 
    show ?thesis
    proof (cases "pendingProjections (adapter w) rid")
      case (Some h')
      from consistentD(5) [OF i Some] obtain d' where "(d', rid, h') \<in> set (timers w)" by blast
      with unique_timer [OF consistentD(3) [OF i] m] have hh: "h' = h" by blast
      have st: "step (Fire t) w =
          w\<lparr> timers := remove1 t (timers w),
             adapter := (adapter w)\<lparr>pendingProjections := (pendingProjections (adapter w))(rid := None)\<rparr>,
             resolveCalls := resolveCalls w @ [(h, None)] \<rparr>"
        using True Some by (simp add: t timeoutCallback_def Let_def)
      show ?thesis
        unfolding st
        by (rule consistent_settle [OF i Some [unfolded hh], of _ None])
           (auto simp: rm d1 d2 tr)
    next
      case None
      have st: "step (Fire t) w = w\<lparr>timers := remove1 t (timers w)\<rparr>"
        using True None by (simp add: t timeoutCallback_def Let_def)
      show ?thesis
        unfolding st
      proof (rule consistentI)
        show "pendingProjections (adapter (w\<lparr>timers := remove1 t (timers w)\<rparr>)) rid' = Some h' \<Longrightarrow>
           (\<exists>d. (d, rid', h') \<in> set (timers (w\<lparr>timers := remove1 t (timers w)\<rparr>))) \<and>
           h' \<notin> settled (w\<lparr>timers := remove1 t (timers w)\<rparr>)" for rid' h'
          using consistentD(5,6) [OF i, of rid' h'] None by (auto simp: rm [unfolded t] t settled_def)
      qed (use consistentD [OF i] in \<open>auto simp: rm d1 d2 settled_def\<close>)
    qed
  qed
qed

lemma consistent_step: "consistent w \<Longrightarrow> consistent (step ev w)"
proof (cases ev)
  case (Call pts)
  assume "consistent w" then show ?thesis unfolding Call by (simp add: consistent_project)
next
  case (Receive m)
  assume "consistent w" then show ?thesis unfolding Receive by (simp add: consistent_handleMessage)
next
  case (Fire t)
  assume "consistent w" then show ?thesis unfolding Fire by (rule consistent_fire)
qed (auto simp: consistent_def settled_def)

lemma consistent_run: "consistent w \<Longrightarrow> consistent (run evs w)"
  by (induction evs arbitrary: w) (simp_all add: consistent_step)

lemma resolutions_unsettled: "h \<notin> settled w \<Longrightarrow> resolutions w h = []"
  by (auto simp: resolutions_def settled_def filter_empty_conv)

lemma resolutions_append:
  "resolveCalls w' = resolveCalls w @ [(h, v)] \<Longrightarrow>
   resolutions w' k = resolutions w k @ (if k = h then [v] else [])"
  by (simp add: resolutions_def)

lemma filter_key_le_one: "distinct (map f xs) \<Longrightarrow> length (filter (\<lambda>x. f x = k) xs) \<le> Suc 0"
proof (induction xs)
  case Nil
  then show ?case by simp
next
  case (Cons x xs)
  show ?case
  proof (cases "f x = k")
    case True
    from Cons.prems have "f x \<notin> f ` set xs" by simp
    with True have "\<forall>y \<in> set xs. f y \<noteq> k" by blast
    then have "filter (\<lambda>x. f x = k) xs = []" by (simp add: filter_empty_conv)
    with True show ?thesis by simp
  next
    case False
    with Cons show ?thesis by simp
  qed
qed

lemma resolutions_le_one: "consistent w \<Longrightarrow> length (resolutions w h) \<le> 1"
  using filter_key_le_one [OF consistentD(7), of w h] by (simp add: resolutions_def)

lemma resolutions_settled:
  assumes "consistent w" "h \<in> settled w"
  shows "length (resolutions w h) = 1"
proof -
  from assms(2) have "filter (\<lambda>c. fst c = h) (resolveCalls w) \<noteq> []"
    by (auto simp: settled_def filter_empty_conv)
  then have "resolutions w h \<noteq> []" by (simp add: resolutions_def)
  with resolutions_le_one [OF assms(1), of h] show ?thesis
    by (cases "resolutions w h") simp_all
qed

lemma consistent_reachable: "consistent (run evs (initial pg))"
  by (rule consistent_run [OF consistent_initial])

text \<open>A waiting request stays in the table until its own timer fires or its answer arrives.\<close>

lemma pending_kept_step:
  assumes i: "consistent w" and t: "(d, rid, h) \<in> set (timers w)"
    and p: "pendingProjections (adapter w) rid = Some h"
    and e: "ev \<noteq> Fire (d, rid, h)" "\<forall>ans. ev \<noteq> Receive (PROJECT_RESPONSE rid ans)"
  shows "(d, rid, h) \<in> set (timers (step ev w)) \<and>
         pendingProjections (adapter (step ev w)) rid = Some h"
proof (cases ev)
  case (Call pts)
  have "rid \<le> projIdCounter (adapter w)" using consistentD(1) [OF i t] by simp
  then show ?thesis using t p by (simp add: Call project_def Let_def)
next
  case (Receive m)
  show ?thesis using t p e(2) unfolding Receive by (cases m) (auto simp: Let_def split: option.splits)
next
  case (Elapse n)
  then show ?thesis using t p by simp
next
  case (PageChange pg)
  then show ?thesis using t p by simp
next
  case (Fire t')
  show ?thesis
  proof (cases "t' \<in> set (timers w) \<and> fst t' \<le> now w")
    case False
    then show ?thesis using t p by (auto simp: Fire)
  next
    case True
    obtain d' rid' h' where t': "t' = (d', rid', h')" by (cases t') auto
    have ne: "rid' \<noteq> rid"
    proof
      assume "rid' = rid"
      with True t' unique_timer [OF consistentD(3) [OF i] t, of d' h'] have "t' = (d, rid, h)" by simp
      with e(1) Fire show False by simp
    qed
    have dt: "distinct (timers w)" using consistentD(3) [OF i] by (rule distinct_of_map)
    have "(d, rid, h) \<in> set (remove1 t' (timers w))" using t ne dt by (simp add: t')
    then show ?thesis
      using True p ne by (simp add: Fire t' timeoutCallback_def Let_def)
  qed
qed

lemma pending_kept_run:
  assumes "consistent w" "(d, rid, h) \<in> set (timers w)"
    "pendingProjections (adapter w) rid = Some h"
    "\<forall>ev \<in> set evs. ev \<noteq> Fire (d, rid, h) \<and> (\<forall>ans. ev \<noteq> Receive (PROJECT_RESPONSE rid ans))"
  shows "(d, rid, h) \<in> set (timers (run evs w)) \<and>
         pendingProjections (adapter (run evs w)) rid = Some h"
  using assms
proof (induction evs arbitrary: w)
  case Nil
  then show ?case by simp
next
  case (Cons ev evs)
  have s: "(d, rid, h) \<in> set (timers (step ev w)) \<and>
         pendingProjections (adapter (step ev w)) rid = Some h"
    using pending_kept_step [OF Cons.prems(1,2,3), of ev] Cons.prems(4) by simp
  show ?case
    using Cons.IH [OF consistent_step [OF Cons.prems(1)], of ev] s Cons.prems(4) by simp
qed

lemma timeoutCallback_instance:
  "instanceAvailable (adapter (timeoutCallback rid h u)) = instanceAvailable (adapter u)"
  by (simp add: timeoutCallback_def Let_def)

lemma instanceAvailable_step:
  "instanceAvailable (adapter (step ev u)) \<noteq> instanceAvailable (adapter u) \<Longrightarrow>
   ev = Receive MAP_FOUND \<and> instanceAvailable (adapter (step ev u)) \<or>
   ev = Receive MAP_NOT_FOUND \<and> \<not> instanceAvailable (adapter (step ev u))"
proof (cases ev)
  case (Receive m)
  assume "instanceAvailable (adapter (step ev u)) \<noteq> instanceAvailable (adapter u)"
  then show ?thesis unfolding Receive by (cases m) (auto simp: Let_def split: option.splits)
qed (auto simp: project_def timeoutCallback_instance Let_def split: if_splits)

text \<open>
  C5. A call of \<open>project\<close> made at time \<open>now w\<close> sets a timer due 1000 ms later. If no
  response message with the call's identifier is handled before the callback of that
  timer runs, the callback, which cannot run before the timer is due, resolves the
  promise of the call with null, and that is the only resolution of the promise; the
  promise has no path to a rejection, the model of the executor has only \<open>resolve\<close>. The
  callback leaves \<open>instanceAvailable\<close> as it is: no event changes the flag but a handled
  ``map found'' message, which sets it, and a handled ``map not found'' message, which
  clears it.
\<close>

theorem project_timeout:
  assumes reach: "w = run evs0 (initial pg0)"
    and call: "project pts w = (h, w1)"
    and quiet: "\<forall>ev \<in> set evs. ev \<noteq> Fire (now w + 1000, projIdCounter (adapter w1), h) \<and>
                  (\<forall>ans. ev \<noteq> Receive (PROJECT_RESPONSE (projIdCounter (adapter w1)) ans))"
    and later: "w2 = run evs w1"
  shows "(now w2 < now w + 1000 \<longrightarrow>
            step (Fire (now w + 1000, projIdCounter (adapter w1), h)) w2 = w2 \<and>
            resolutions w2 h = []) \<and>
         (now w + 1000 \<le> now w2 \<longrightarrow>
            resolutions (step (Fire (now w + 1000, projIdCounter (adapter w1), h)) w2) h = [None]) \<and>
         instanceAvailable (adapter (step (Fire (now w + 1000, projIdCounter (adapter w1), h)) w2)) =
           instanceAvailable (adapter w2) \<and>
         (\<forall>ev u. instanceAvailable (adapter (step ev u)) \<noteq> instanceAvailable (adapter u) \<longrightarrow>
            ev = Receive MAP_FOUND \<and> instanceAvailable (adapter (step ev u)) \<or>
            ev = Receive MAP_NOT_FOUND \<and> \<not> instanceAvailable (adapter (step ev u)))"
proof -
  let ?rid = "projIdCounter (adapter w1)"
  let ?t = "(now w + 1000, ?rid, h)"
  have cw: "consistent w" unfolding reach by (rule consistent_reachable)
  have w1: "w1 = snd (project pts w)" using call by simp
  have c1: "consistent w1" unfolding w1 by (rule consistent_project [OF cw])
  have t1: "?t \<in> set (timers w1)" and p1: "pendingProjections (adapter w1) ?rid = Some h"
    using call by (auto simp: project_def Let_def)
  have c2: "consistent w2" unfolding later by (rule consistent_run [OF c1])
  have k: "?t \<in> set (timers w2) \<and> pendingProjections (adapter w2) ?rid = Some h"
    unfolding later by (rule pending_kept_run [OF c1 t1 p1 quiet])
  have u: "resolutions w2 h = []"
    using consistentD(6) [OF c2, of ?rid h] k by (simp add: resolutions_unsettled)
  have early: "step (Fire ?t) w2 = w2" if "now w2 < now w + 1000"
    using that by simp
  have due: "resolutions (step (Fire ?t) w2) h = [None]" if "now w + 1000 \<le> now w2"
  proof -
    have "resolveCalls (step (Fire ?t) w2) = resolveCalls w2 @ [(h, None)]"
      using that k by (simp add: timeoutCallback_def Let_def)
    from resolutions_append [OF this, of h] u show ?thesis by simp
  qed
  have same: "instanceAvailable (adapter (step (Fire ?t) w2)) = instanceAvailable (adapter w2)"
    using instanceAvailable_step [of "Fire ?t" w2] by blast
  show ?thesis using early u due same instanceAvailable_step by blast
qed

theorem project_timeout_witness:
  "resolutions (run [Call ptsA, Elapse 400, Receive (MAP_VIEWPORT (Some vpA)), Elapse 600,
                     Fire (1000, 1, 0)] (initial pgFlat)) 0 = [None] \<and>
   resolutions (run [Call ptsA, Elapse 400, Fire (1000, 1, 0)] (initial pgFlat)) 0 = []"
proof -
  define w1 where "w1 = snd (project ptsA (initial pgFlat))"
  have call: "project ptsA (initial pgFlat) = (0, w1)"
    by (simp add: w1_def project_def initial_def Let_def)
  have rid: "projIdCounter (adapter w1) = 1" and n: "now (initial pgFlat) = 0" "now w1 = 0"
    by (simp_all add: w1_def project_def initial_def Let_def)
  have reach: "initial pgFlat = run [] (initial pgFlat)" by simp
  have a: "resolutions (step (Fire (1000, 1, 0))
             (run [Elapse 400, Receive (MAP_VIEWPORT (Some vpA)), Elapse 600] w1)) 0 = [None]"
    using project_timeout [OF reach call _ refl, of "[Elapse 400, Receive (MAP_VIEWPORT (Some vpA)), Elapse 600]"]
    by (simp add: rid n)
  have b: "step (Fire (1000, 1, 0)) (run [Elapse 400] w1) = run [Elapse 400] w1 \<and>
           resolutions (run [Elapse 400] w1) 0 = []"
    using project_timeout [OF reach call _ refl, of "[Elapse 400]"]
    by (simp add: rid n)
  show ?thesis using a b by (simp add: w1_def)
qed

text \<open>
  C6. In every world that a run from the initial world reaches: a call of \<open>project\<close>
  gets an identifier under which the table holds nothing, and stores its own, so far
  unresolved, promise there; no promise has been resolved more than once; a response
  message whose identifier has an entry resolves the promise of that entry, until then
  unresolved, with the points of the message and removes the entry; the callback of a
  timer that is due leaves no entry under its identifier, and resolves its promise with
  null when the entry was still there, the promise having been resolved exactly once
  before otherwise; a response message whose identifier has no entry changes nothing.
\<close>

theorem pending_projection_correlation:
  assumes reach: "w = run evs (initial pg)"
  shows "(case project pts w of (h, w1) \<Rightarrow>
            pendingProjections (adapter w) (projIdCounter (adapter w1)) = None \<and>
            pendingProjections (adapter w1) (projIdCounter (adapter w1)) = Some h \<and>
            resolutions w1 h = []) \<and>
         (\<forall>h. length (resolutions w h) \<le> 1) \<and>
         (\<forall>rid h ans. pendingProjections (adapter w) rid = Some h \<longrightarrow>
            resolutions w h = [] \<and>
            resolutions (handleMessage (PROJECT_RESPONSE rid ans) w) h = [ans] \<and>
            pendingProjections (adapter (handleMessage (PROJECT_RESPONSE rid ans) w)) rid = None) \<and>
         (\<forall>d rid h. (d, rid, h) \<in> set (timers w) \<and> d \<le> now w \<longrightarrow>
            pendingProjections (adapter (step (Fire (d, rid, h)) w)) rid = None \<and>
            (if pendingProjections (adapter w) rid = None
             then length (resolutions w h) = 1 \<and>
                  resolutions (step (Fire (d, rid, h)) w) h = resolutions w h
             else resolutions w h = [] \<and> resolutions (step (Fire (d, rid, h)) w) h = [None])) \<and>
         (\<forall>rid ans. pendingProjections (adapter w) rid = None \<longrightarrow>
            handleMessage (PROJECT_RESPONSE rid ans) w = w)"
proof -
  have c: "consistent w" unfolding reach by (rule consistent_reachable)
  have fresh: "pendingProjections (adapter w) (Suc (projIdCounter (adapter w))) = None"
  proof (cases "pendingProjections (adapter w) (Suc (projIdCounter (adapter w)))")
    case (Some h')
    from consistentD(5) [OF c Some] obtain d where "(d, Suc (projIdCounter (adapter w)), h') \<in> set (timers w)"
      by blast
    from consistentD(1) [OF c this] show ?thesis by simp
  qed simp
  have newp: "promises w \<notin> settled w" using consistentD(8) [OF c, of "promises w"] by auto
  have one: "case project pts w of (h, w1) \<Rightarrow>
            pendingProjections (adapter w) (projIdCounter (adapter w1)) = None \<and>
            pendingProjections (adapter w1) (projIdCounter (adapter w1)) = Some h \<and>
            resolutions w1 h = []"
    using fresh resolutions_unsettled [OF newp]
    by (simp add: project_def Let_def resolutions_def)
  have two: "\<forall>h. length (resolutions w h) \<le> 1"
    using resolutions_le_one [OF c] by simp
  have three: "resolutions w h = [] \<and>
            resolutions (handleMessage (PROJECT_RESPONSE rid ans) w) h = [ans] \<and>
            pendingProjections (adapter (handleMessage (PROJECT_RESPONSE rid ans) w)) rid = None"
    if p: "pendingProjections (adapter w) rid = Some h" for rid h ans
  proof -
    have u: "resolutions w h = []" using consistentD(6) [OF c p] by (rule resolutions_unsettled)
    have "resolveCalls (handleMessage (PROJECT_RESPONSE rid ans) w) = resolveCalls w @ [(h, ans)]"
      by (simp add: p Let_def)
    from resolutions_append [OF this, of h] u
    show ?thesis by (simp add: p Let_def)
  qed
  have four: "pendingProjections (adapter (step (Fire (d, rid, h)) w)) rid = None \<and>
            (if pendingProjections (adapter w) rid = None
             then length (resolutions w h) = 1 \<and>
                  resolutions (step (Fire (d, rid, h)) w) h = resolutions w h
             else resolutions w h = [] \<and> resolutions (step (Fire (d, rid, h)) w) h = [None])"
    if t: "(d, rid, h) \<in> set (timers w) \<and> d \<le> now w" for d rid h
  proof (cases "pendingProjections (adapter w) rid")
    case None
    from consistentD(9) [OF c, of "(d, rid, h)"] t None have "h \<in> settled w" by simp
    from resolutions_settled [OF c this] show ?thesis
      using t None by (simp add: timeoutCallback_def Let_def resolutions_def)
  next
    case (Some h')
    from consistentD(5) [OF c Some] obtain d' where "(d', rid, h') \<in> set (timers w)" by blast
    with unique_timer [OF consistentD(3) [OF c], of d rid h d' h'] t have hh: "h' = h" by blast
    have u: "resolutions w h = []"
      using consistentD(6) [OF c Some] unfolding hh by (rule resolutions_unsettled)
    have "resolveCalls (step (Fire (d, rid, h)) w) = resolveCalls w @ [(h, None)]"
      using t Some by (simp add: timeoutCallback_def Let_def)
    from resolutions_append [OF this, of h] u
    show ?thesis using t Some by (simp add: timeoutCallback_def Let_def)
  qed
  have five: "\<forall>rid ans. pendingProjections (adapter w) rid = None \<longrightarrow>
            handleMessage (PROJECT_RESPONSE rid ans) w = w"
    by simp
  show ?thesis using one two three four five by blast
qed

theorem pending_projection_correlation_witness:
  "pendingProjections (adapter (run [Call ptsA] (initial pgFlat))) 1 = Some 0 \<and>
   pendingProjections (adapter (run [Call ptsA] (initial pgFlat))) 2 = None \<and>
   pendingProjections (adapter (run [Call ptsA, Call ptsA] (initial pgFlat))) 2 = Some 1 \<and>
   resolutions (run [Call ptsA, Receive (PROJECT_RESPONSE 1 (Some [Some qA]))] (initial pgFlat)) 0
     = [Some [Some qA]] \<and>
   resolutions (run [Call ptsA, Elapse 1000, Fire (1000, 1, 0)] (initial pgFlat)) 0 = [None] \<and>
   run [Call ptsA, Receive (PROJECT_RESPONSE 2 (Some [Some qA]))] (initial pgFlat)
     = run [Call ptsA] (initial pgFlat)"
proof -
  define w where "w = run [Call ptsA] (initial pgFlat)"
  define v where "v = run [Call ptsA, Elapse 1000] (initial pgFlat)"
  have p: "pendingProjections (adapter w) 1 = Some 0" "pendingProjections (adapter w) 2 = None"
    by (simp_all add: w_def project_def initial_def Let_def)
  have q: "(1000, 1, 0) \<in> set (timers v) \<and> 1000 \<le> now v" "pendingProjections (adapter v) 1 = Some 0"
    by (simp_all add: v_def project_def initial_def Let_def)
  have a: "pendingProjections (adapter (run [Call ptsA, Call ptsA] (initial pgFlat))) 2 = Some 1"
    using pending_projection_correlation [OF w_def, of ptsA] by (simp add: w_def project_def initial_def Let_def)
  have b: "resolutions (handleMessage (PROJECT_RESPONSE 1 (Some [Some qA])) w) 0 = [Some [Some qA]]"
    using pending_projection_correlation [OF w_def, of ptsA] p(1) by blast
  have c: "resolutions (step (Fire (1000, 1, 0)) v) 0 = [None]"
    using pending_projection_correlation [OF v_def, of ptsA, THEN conjunct2, THEN conjunct2, THEN conjunct2, THEN conjunct1,
        rule_format, of 1000 1 0] q
    by simp
  have d: "handleMessage (PROJECT_RESPONSE 2 (Some [Some qA])) w = w"
    using pending_projection_correlation [OF w_def, of ptsA] p(2) by blast
  show ?thesis using p a b c d by (simp add: w_def v_def)
qed

end
